theory Spec2Isabelle
  imports Complex_Main "HOL-Library.Word" "HOL-Library.Signed_Division" "HOL-Library.Multiset"
begin

unbundle bit_operations_syntax

section \<open>The sorted-BAM sink (utils/hts\_file.cpp)\<close>

text \<open>
  \<open>HtsFile\<close> writes records either straight to an open file or, for sorted BAM output,
  into an in-memory buffer that is flushed to temporary files and merged by \<open>finalise\<close>.
  The object is modelled as a record of its members; everything outside the object (the
  files on disk, the log, the calls of the progress callback that returned, and which I/O
  calls of the HTS library fail) is a second record, \<open>world\<close>. A function of the class takes both and
  returns both; an exception is \<open>Inl\<close> of the error together with the state at the throw.
\<close>

datatype OutputMode = UBAM | BAM | SAM | FASTQ

text \<open>
  Of \<open>bam1_t\<close> the sink only looks at \<open>core.tid\<close> (int32), \<open>core.pos\<close> (int64) and
  \<open>l_data\<close>; \<open>payload\<close> stands for the rest of the record.
\<close>

record bam1_t =
  tid :: "32 word"
  pos :: "64 word"
  l_data :: nat
  payload :: nat

record sam_hdr =
  hdr_text :: string
  hdr_nref :: nat
  hdr_SO :: string

datatype file_content = BamFile "sam_hdr option" "bam1_t list" | IndexFile

datatype log_level = LogError | LogWarn | LogInfo | LogDebug

datatype progress_event = Percent nat | MergedRecords nat

datatype hts_error =
    RuntimeError string | OutOfRange string | FilesystemError string
  | AssertionFailure string | NullDereference | CallbackException progress_event

record world =
  files :: "string \<rightharpoonup> file_content"
  log :: "(log_level \<times> string) list"
  progress :: "progress_event list"
  open_fails :: "string \<Rightarrow> bool"
  bgzf_mt_fails :: "string \<Rightarrow> bool"
  hdr_write_fails :: "string \<Rightarrow> bool"
  rec_write_fails :: "string \<Rightarrow> bam1_t \<Rightarrow> bool"
  index_build_fails :: "string \<Rightarrow> bool"

record HtsFile =
  m_filename :: string
  m_threads :: int
  m_finalised :: bool
  m_finalise_is_noop :: bool
  m_sort_bam :: bool
  m_mode :: OutputMode
  m_file :: "string option"
  m_header :: "sam_hdr option"
  m_temp_files :: "string list"
  m_buffer_map :: "(64 word \<times> int) list"
  m_bam_buffer :: "nat \<rightharpoonup> bam1_t"
  m_bam_buffer_size :: nat
  m_current_buffer_offset :: nat
  m_num_records :: nat

type_synonym sys = "HtsFile \<times> world"

type_synonym 'a thrown = "(hts_error \<times> sys) + 'a"

text \<open>\<open>sizeof(bam1_t)\<close> on the 64-bit targets of the HTS library.\<close>

definition sizeof_bam1_t :: nat where
  "sizeof_bam1_t = 80"

definition spdlog :: "log_level \<Rightarrow> string \<Rightarrow> world \<Rightarrow> world" where
  "spdlog lvl msg w = w\<lparr>log := log w @ [(lvl, msg)]\<rparr>"

text \<open>
  The progress callback is an argument of \<open>finalise\<close>, a function object of the caller. A
  call of it either returns, which is recorded in the world, or throws. The callback is
  modelled by the set of the calls at which it throws; within one call of \<open>finalise\<close> no
  two calls of the callback are the same, so every way of throwing is covered.
\<close>

type_synonym ProgressCallback = "progress_event \<Rightarrow> bool"

definition call_progress :: "ProgressCallback \<Rightarrow> progress_event \<Rightarrow> world \<Rightarrow> hts_error + world" where
  "call_progress callback_throws ev w =
     (if callback_throws ev then Inl (CallbackException ev)
      else Inr (w\<lparr>progress := progress w @ [ev]\<rparr>))"

definition progress_callback :: "ProgressCallback \<Rightarrow> nat \<Rightarrow> world \<Rightarrow> hts_error + world" where
  "progress_callback callback_throws p w = call_progress callback_throws (Percent p) w"

subsection \<open>The destructor\<close>

datatype dtor_outcome = Destroyed | Aborted

definition HtsFile_dtor :: "sys \<Rightarrow> dtor_outcome \<times> world" where
  "HtsFile_dtor s =
     (case s of (h, w) \<Rightarrow>
        if \<not> m_finalised h
        then (Aborted, spdlog LogError ''finalise() not called on a HtsFile.'' w)
        else (Destroyed, w))"

subsection \<open>Sorting key and the buffer map\<close>

text \<open>
  \<open>(static_cast<uint64_t>(record->core.tid) << 32) | record->core.pos\<close>: the signed
  32-bit \<open>tid\<close> is sign-extended to 64 bits, shifted, and or-ed with the 64-bit position.
\<close>

definition calculate_sorting_key :: "bam1_t \<Rightarrow> 64 word" where
  "calculate_sorting_key record = push_bit 32 (scast (tid record) :: 64 word) OR pos record"

text \<open>
  \<open>m_buffer_map\<close> is a \<open>std::multimap<uint64_t, int64_t>\<close>: iteration is in key order, and
  \<open>insert\<close> puts a new element after the elements with an equal key.
\<close>

fun multimap_insert :: "('k::linorder) \<times> 'v \<Rightarrow> ('k \<times> 'v) list \<Rightarrow> ('k \<times> 'v) list" where
  "multimap_insert kv [] = [kv]"
| "multimap_insert kv (x # xs) =
     (if fst kv < fst x then kv # x # xs else x # multimap_insert kv xs)"

text \<open>\<open>std::to_string\<close> of an unsigned number.\<close>

definition digit_char :: "nat \<Rightarrow> char" where
  "digit_char d = ''0123456789'' ! d"

function to_string :: "nat \<Rightarrow> string" where
  "to_string n = (if n < 10 then [digit_char n] else to_string (n div 10) @ [digit_char (n mod 10)])"
  by pat_completeness auto
termination
  by (relation "measure (\<lambda>n. n)") auto

declare to_string.simps [simp del]

subsection \<open>Calls into the HTS library\<close>

text \<open>
  \<open>hts_open\<close> for writing creates or truncates the file; it returns a null handle when it
  fails. \<open>sam_hdr_write\<close> and \<open>sam_write1\<close> return a negative value when they fail.
  Which calls fail is decided by the \<open>world\<close>.
\<close>

definition hts_open_write :: "string \<Rightarrow> world \<Rightarrow> string option \<times> world" where
  "hts_open_write fn w =
     (if open_fails w fn then (None, w)
      else (Some fn, w\<lparr>files := (files w)(fn \<mapsto> BamFile None [])\<rparr>))"

definition sam_hdr_write :: "string \<Rightarrow> sam_hdr option \<Rightarrow> world \<Rightarrow> int \<times> world" where
  "sam_hdr_write fn header w =
     (case header of
        None \<Rightarrow> (-1, w)
      | Some hd_val \<Rightarrow>
          if hdr_write_fails w fn then (-1, w)
          else (case files w fn of
                  Some (BamFile fh rs) \<Rightarrow> (0, w\<lparr>files := (files w)(fn \<mapsto> BamFile (Some hd_val) rs)\<rparr>)
                | _ \<Rightarrow> (-1, w)))"

definition sam_write1 :: "string \<Rightarrow> bam1_t \<Rightarrow> world \<Rightarrow> int \<times> world" where
  "sam_write1 fn record w =
     (if rec_write_fails w fn record then (-1, w)
      else (case files w fn of
              Some (BamFile fh rs) \<Rightarrow> (0, w\<lparr>files := (files w)(fn \<mapsto> BamFile fh (rs @ [record]))\<rparr>)
            | _ \<Rightarrow> (-1, w)))"

subsection \<open>Writing one record\<close>

text \<open>
  \<open>write_to_file\<close> asserts that a header was set (except for FASTQ) and hands the record
  to \<open>sam_write1\<close> for the open file. A null \<open>m_file\<close> is dereferenced by the library.
\<close>

definition write_to_file :: "bam1_t \<Rightarrow> sys \<Rightarrow> (int \<times> world) thrown" where
  "write_to_file record s =
     (case s of (h, w) \<Rightarrow>
        if m_mode h \<noteq> FASTQ \<and> m_header h = None then Inl (AssertionFailure ''m_header'', s)
        else (case m_file h of
                None \<Rightarrow> Inl (NullDereference, s)
              | Some fn \<Rightarrow> Inr (sam_write1 fn record w)))"

subsection \<open>Flushing the buffer to a temporary file\<close>

text \<open>\<open>size_t(offset)\<close> of a signed 64-bit offset.\<close>

definition size_t_of :: "int \<Rightarrow> nat" where
  "size_t_of i = nat (i mod 2 ^ 64)"

text \<open>
  The record an entry of the buffer map stands for: the passed pointer for offset \<open>-1\<close>,
  otherwise the record stored in the buffer at that offset, after the two bounds checks.
  Buffer bytes that were never written are zero, so the record's data pointer is null.
\<close>

definition record_at :: "HtsFile \<Rightarrow> bam1_t option \<Rightarrow> int \<Rightarrow> hts_error + bam1_t" where
  "record_at h last_record offset =
     (if offset = -1 then
        (case last_record of None \<Rightarrow> Inl NullDereference | Some r \<Rightarrow> Inr r)
      else if size_t_of offset + sizeof_bam1_t > m_bam_buffer_size h
        then Inl (OutOfRange ''Index out of bounds in BAM record buffer.'')
      else (case m_bam_buffer h (size_t_of offset) of
              None \<Rightarrow> Inl NullDereference
            | Some r \<Rightarrow>
                if size_t_of offset + sizeof_bam1_t + l_data r > m_bam_buffer_size h
                then Inl (OutOfRange ''Index out of bounds in BAM record buffer.'')
                else Inr r))"

text \<open>The loop over \<open>m_buffer_map\<close> in \<open>flush_temp_file\<close>.\<close>

fun drain_buffer_map :: "(64 word \<times> int) list \<Rightarrow> bam1_t option \<Rightarrow> sys \<Rightarrow> sys thrown" where
  "drain_buffer_map [] last_record s = Inr s"
| "drain_buffer_map (item # items) last_record s =
     (case record_at (fst s) last_record (snd item) of
        Inl e \<Rightarrow> Inl (e, s)
      | Inr record \<Rightarrow>
          (case write_to_file record s of
             Inl e \<Rightarrow> Inl e
           | Inr (res, w') \<Rightarrow>
               if res < 0
               then Inl (RuntimeError ''Error writing to BAM temporary file.'', (fst s, w'))
               else drain_buffer_map items last_record (fst s, w')))"

definition flush_temp_file :: "bam1_t option \<Rightarrow> sys \<Rightarrow> sys thrown" where
  "flush_temp_file last_record s =
     (case s of (h, w) \<Rightarrow>
        if m_current_buffer_offset h = 0 \<and> last_record = None then Inr s
        else
          let h1 = (case last_record of
                      None \<Rightarrow> h
                    | Some r \<Rightarrow>
                        h\<lparr>m_buffer_map :=
                            multimap_insert (calculate_sorting_key r, -1) (m_buffer_map h)\<rparr>);
              file_index = length (m_temp_files h1);
              tempfilename = m_filename h1 @ ''.'' @ to_string file_index @ ''.tmp'';
              h2 = h1\<lparr>m_temp_files := m_temp_files h1 @ [tempfilename]\<rparr>;
              (handle, w1) = hts_open_write tempfilename w;
              h3 = h2\<lparr>m_file := handle\<rparr>
          in (case handle of
                None \<Rightarrow> Inl (NullDereference, (h3, w1))
              | Some fn \<Rightarrow>
                  if bgzf_mt_fails w1 fn
                  then Inl (RuntimeError ''Could not enable multi threading for BAM generation.'',
                            (h3, w1))
                  else
                    let (res, w2) = sam_hdr_write fn (m_header h3) w1
                    in if res \<noteq> 0
                       then Inl (RuntimeError ''Could not write header to temp file.'', (h3, w2))
                       else (case drain_buffer_map (m_buffer_map h3) last_record (h3, w2) of
                               Inl e \<Rightarrow> Inl e
                             | Inr (h4, w3) \<Rightarrow>
                                 Inr (h4\<lparr>m_file := None, m_current_buffer_offset := 0,
                                         m_buffer_map := []\<rparr>, w3))))"

subsection \<open>Buffering a record\<close>

definition cache_record :: "bam1_t \<Rightarrow> sys \<Rightarrow> (int \<times> sys) thrown" where
  "cache_record record s =
     (case s of (h, w) \<Rightarrow>
        let bytes_required = sizeof_bam1_t + l_data record
        in if m_current_buffer_offset h + bytes_required > m_bam_buffer_size h
           then (case flush_temp_file (Some record) s of
                   Inl e \<Rightarrow> Inl e
                 | Inr s' \<Rightarrow> Inr (0, s'))
           else
             let sorting_key = calculate_sorting_key record;
                 off = m_current_buffer_offset h
             in Inr (0,
                  (h\<lparr>m_buffer_map := multimap_insert (sorting_key, int off) (m_buffer_map h),
                     m_bam_buffer := (m_bam_buffer h)(off \<mapsto> record),
                     m_current_buffer_offset :=
                       ((off + sizeof_bam1_t + l_data record + 7) div 8) * 8\<rparr>, w)))"

text \<open>\<open>HtsFile::write\<close> (\<open>write\<close> is a keyword of Isabelle).\<close>

definition HtsFile_write :: "bam1_t \<Rightarrow> sys \<Rightarrow> (int \<times> sys) thrown" where
  "HtsFile_write record s =
     (case s of (h, w) \<Rightarrow>
        let h1 = h\<lparr>m_num_records := m_num_records h + 1\<rparr>
        in if m_file h1 \<noteq> None
           then (case write_to_file record (h1, w) of
                   Inl e \<Rightarrow> Inl e
                 | Inr (res, w') \<Rightarrow> Inr (res, (h1, w')))
           else cache_record record (h1, w))"

definition set_header :: "sam_hdr option \<Rightarrow> sys \<Rightarrow> int \<times> sys" where
  "set_header header s =
     (case s of (h, w) \<Rightarrow>
        (case header of
           None \<Rightarrow> (0, s)
         | Some hd_val \<Rightarrow>
             let h1 = h\<lparr>m_header := Some hd_val\<rparr>
             in (case m_file h1 of
                   None \<Rightarrow> (0, (h1, w))
                 | Some fn \<Rightarrow>
                     let (res, w') = sam_hdr_write fn (m_header h1) w in (res, (h1, w')))))"

definition MINIMUM_BUFFER_SIZE :: nat where
  "MINIMUM_BUFFER_SIZE = 100000"

definition set_buffer_size :: "nat \<Rightarrow> sys \<Rightarrow> sys thrown" where
  "set_buffer_size buff_size s =
     (case s of (h, w) \<Rightarrow>
        if buff_size < MINIMUM_BUFFER_SIZE
        then Inl (RuntimeError (''The buffer size for sorted BAM output must be at least ''
                    @ to_string MINIMUM_BUFFER_SIZE @ '' (''
                    @ to_string (MINIMUM_BUFFER_SIZE div 1000) @ '' KB).''), s)
        else Inr (h\<lparr>m_bam_buffer_size := buff_size\<rparr>, w))"

subsection \<open>Merging the temporary files\<close>

text \<open>
  During the merge each temporary file is a slot: the record loaded from it
  (\<open>top_records[i]\<close>, null once the file is exhausted) and the records not yet read
  (\<open>in_files[i]\<close>). Files in the model are well-formed lists of records, so reading
  yields the next record or end of file; read errors of a corrupt file are not modelled.
\<close>

type_synonym merge_slot = "bam1_t option \<times> bam1_t list"

definition compare_headers :: "sam_hdr \<Rightarrow> sam_hdr \<Rightarrow> bool" where
  "compare_headers header1 header2 = (header1 = header2)"

text \<open>The inner loop that finds the next file to write a record from.\<close>

fun find_best ::
  "merge_slot list \<Rightarrow> nat \<Rightarrow> (nat \<times> 64 word) option \<Rightarrow> (nat \<times> 64 word) option" where
  "find_best [] i best = best"
| "find_best (slot # slots) i best =
     find_best slots (i + 1)
       (case fst slot of
          None \<Rightarrow> best
        | Some r \<Rightarrow>
            let score = calculate_sorting_key r
            in (case best of
                  None \<Rightarrow> Some (i, score)
                | Some (best_index, best_score) \<Rightarrow>
                    if score < best_score then Some (i, score) else best))"

definition slot_weight :: "merge_slot \<Rightarrow> nat" where
  "slot_weight slot = (case fst slot of None \<Rightarrow> 0 | Some r \<Rightarrow> 1) + length (snd slot)"

lemma find_best_index:
  "find_best slots i best = Some (b, sc) \<Longrightarrow>
   (\<forall>bi bs. best = Some (bi, bs) \<longrightarrow> bi < i \<and> (\<exists>r. fst (pre ! bi) = Some r)) \<Longrightarrow>
   length pre = i \<Longrightarrow>
   b < i + length slots \<and> (\<exists>r. fst ((pre @ slots) ! b) = Some r)"
proof (induction slots arbitrary: i best pre)
  case Nil
  then show ?case by auto
next
  case (Cons slot slots)
  let ?best' = "(case fst slot of
          None \<Rightarrow> best
        | Some r \<Rightarrow>
            let score = calculate_sorting_key r
            in (case best of
                  None \<Rightarrow> Some (i, score)
                | Some (best_index, best_score) \<Rightarrow>
                    if score < best_score then Some (i, score) else best))"
  have step: "find_best slots (i + 1) ?best' = Some (b, sc)"
    using Cons.prems(1) by simp
  have inv: "\<forall>bi bs. ?best' = Some (bi, bs) \<longrightarrow>
               bi < i + 1 \<and> (\<exists>r. fst ((pre @ [slot]) ! bi) = Some r)"
    using Cons.prems(2,3) by (auto split: option.splits if_splits simp: Let_def nth_append)
  have len: "length (pre @ [slot]) = i + 1"
    using Cons.prems(3) by simp
  from Cons.IH[OF step inv len] show ?case by simp
qed

lemma find_best_Some:
  assumes "find_best slots 0 None = Some (b, sc)"
  shows "b < length slots \<and> (\<exists>r. fst (slots ! b) = Some r)"
  using find_best_index[OF assms, of "[]"] by simp

lemma sum_list_update_less:
  "b < length xs \<Longrightarrow> f y < f (xs ! b) \<Longrightarrow>
   sum_list (map f (xs[b := y])) < sum_list (map (f::'a \<Rightarrow> nat) xs)"
proof (induction xs arbitrary: b)
  case Nil
  then show ?case by simp
next
  case (Cons x xs)
  then show ?case by (cases b) auto
qed

text \<open>
  Modelled from the spec: the progress callback is invoked during the merge per record.
  \<open>ProgressUpdater\<close> turns the number of merged records into a call of the progress
  callback; the call is recorded with the number of records.
\<close>

definition update_progress :: "ProgressCallback \<Rightarrow> nat \<Rightarrow> world \<Rightarrow> hts_error + world" where
  "update_progress callback_throws processed w =
     call_progress callback_throws (MergedRecords processed) w"

text \<open>
  The \<open>while (files_done < m_temp_files.size())\<close> loop. Every round writes one record and
  either loads the next record of that file or closes the file, so the number of records
  still to be written decreases. The branch for a null top record is never taken
  (\<open>find_best_Some\<close>). An exception of the progress callback leaves the loop.
\<close>

function merge_loop ::
  "ProgressCallback \<Rightarrow> string \<Rightarrow> nat \<Rightarrow> merge_slot list \<Rightarrow> nat \<Rightarrow> nat \<Rightarrow> world \<Rightarrow>
   (hts_error \<times> world) + (bool \<times> world)" where
  "merge_loop callback_throws out_fn n slots files_done processed_records w =
     (if \<not> files_done < n then Inr (True, w)
      else
        (case find_best slots 0 None of
           None \<Rightarrow> Inr (False, spdlog LogError ''Logic error in merging algorithm.'' w)
         | Some (best_index, best_score) \<Rightarrow>
             (case fst (slots ! best_index) of
                None \<Rightarrow> Inr (False, w)
              | Some r \<Rightarrow>
                  let (res, w1) = sam_write1 out_fn r w
                  in if res < 0
                     then Inr (False,
                            spdlog LogError (''Failed to write to sorted file '' @ out_fn) w1)
                     else
                       (case update_progress callback_throws (processed_records + 1) w1 of
                          Inl e \<Rightarrow> Inl (e, w1)
                        | Inr w2 \<Rightarrow>
                            (case snd (slots ! best_index) of
                               [] \<Rightarrow>
                                 merge_loop callback_throws out_fn n
                                   (slots[best_index := (None, [])])
                                   (files_done + 1) (processed_records + 1) w2
                             | r' # rest \<Rightarrow>
                                 merge_loop callback_throws out_fn n
                                   (slots[best_index := (Some r', rest)])
                                   files_done (processed_records + 1) w2)))))"
  by pat_completeness auto
termination
proof (relation "measure (\<lambda>(callback_throws, out_fn, n, slots, files_done, processed_records, w).
                     sum_list (map slot_weight slots))")
  show "wf (measure (\<lambda>(callback_throws, out_fn, n, slots, files_done, processed_records, w).
                     sum_list (map slot_weight slots)))"
    by simp
next
  fix callback_throws :: ProgressCallback and out_fn :: string
    and n files_done processed_records :: nat and slots :: "merge_slot list"
    and w w2 :: world and x2 :: "nat \<times> 64 word" and best_index best_score r
  assume fb: "find_best slots 0 None = Some x2" "(best_index, best_score) = x2"
    and top: "fst (slots ! best_index) = Some r"
  have "best_index < length slots"
    using find_best_Some fb by metis
  moreover have "slot_weight (None, []) < slot_weight (slots ! best_index)"
    using top by (simp add: slot_weight_def)
  ultimately show "((callback_throws, out_fn, n, slots[best_index := (None, [])], files_done + 1,
            processed_records + 1, w2),
           callback_throws, out_fn, n, slots, files_done, processed_records, w)
          \<in> measure (\<lambda>(callback_throws, out_fn, n, slots, files_done, processed_records, w).
                     sum_list (map slot_weight slots))"
    by (simp add: sum_list_update_less)
next
  fix callback_throws :: ProgressCallback and out_fn :: string
    and n files_done processed_records :: nat and slots :: "merge_slot list"
    and w w2 :: world and x2 :: "nat \<times> 64 word" and best_index best_score r r' rest
  assume fb: "find_best slots 0 None = Some x2" "(best_index, best_score) = x2"
    and top: "fst (slots ! best_index) = Some r"
    and more: "snd (slots ! best_index) = r' # rest"
  have "best_index < length slots"
    using find_best_Some fb by metis
  moreover have "slot_weight (Some r', rest) < slot_weight (slots ! best_index)"
    using top more by (simp add: slot_weight_def)
  ultimately show "((callback_throws, out_fn, n, slots[best_index := (Some r', rest)], files_done,
            processed_records + 1, w2),
           callback_throws, out_fn, n, slots, files_done, processed_records, w)
          \<in> measure (\<lambda>(callback_throws, out_fn, n, slots, files_done, processed_records, w).
                     sum_list (map slot_weight slots))"
    by (simp add: sum_list_update_less)
qed

declare merge_loop.simps [simp del]

text \<open>
  The first loop of \<open>merge_temp_files\<close>: open every temporary file, compare its header
  with the first one, and load its first record. The result is \<open>Inl\<close> of the world at an
  early \<open>return false\<close>, or the header and the slots.
\<close>

datatype merge_abort = ReturnFalse world | Crash hts_error world

fun open_temp_files ::
  "string list \<Rightarrow> nat \<Rightarrow> sam_hdr option \<Rightarrow> merge_slot list \<Rightarrow> world \<Rightarrow>
   merge_abort + (sam_hdr option \<times> merge_slot list)" where
  "open_temp_files [] i header slots w = Inr (header, slots)"
| "open_temp_files (fn # fns) i header slots w =
     (if open_fails w fn then Inl (Crash NullDereference w)
      else
        (case files w fn of
           Some (BamFile file_header rs) \<Rightarrow>
             if bgzf_mt_fails w fn
             then Inl (ReturnFalse
                    (spdlog LogError ''Could not enable multi threading for BAM reading.'' w))
             else
               (case file_header of
                  None \<Rightarrow> Inl (Crash NullDereference w)
                | Some current_header \<Rightarrow>
                    if i \<noteq> 0 \<and>
                       \<not> (case header of
                            None \<Rightarrow> False
                          | Some first_header \<Rightarrow> compare_headers first_header current_header)
                    then Inl (ReturnFalse
                           (spdlog LogError (''Header for temporary file '' @ fn
                              @ '' does not match other headers.'') w))
                    else
                      (case rs of
                         [] \<Rightarrow> Inl (ReturnFalse
                                 (spdlog LogError
                                    (''Could not read first record from file '' @ fn) w))
                       | r # rest \<Rightarrow>
                           open_temp_files fns (i + 1)
                             (if i = 0 then Some current_header else header)
                             (slots @ [(Some r, rest)]) w))
         | _ \<Rightarrow> Inl (Crash NullDereference w)))"

definition remove_files :: "string list \<Rightarrow> world \<Rightarrow> world" where
  "remove_files fns w = w\<lparr>files := (\<lambda>fn. if fn \<in> set fns then None else files w fn)\<rparr>"

definition merge_temp_files :: "ProgressCallback \<Rightarrow> sys \<Rightarrow> (bool \<times> world) thrown" where
  "merge_temp_files callback_throws s =
     (case s of (h, w) \<Rightarrow>
        (case open_temp_files (m_temp_files h) 0 None [] w of
           Inl (Crash e w') \<Rightarrow> Inl (e, (h, w'))
         | Inl (ReturnFalse w') \<Rightarrow> Inr (False, w')
         | Inr (header, slots) \<Rightarrow>
             let (out_file, w1) = hts_open_write (m_filename h) w
             in (case out_file of
                   None \<Rightarrow> Inl (NullDereference, (h, w1))
                 | Some out_fn \<Rightarrow>
                     if bgzf_mt_fails w1 out_fn
                     then Inr (False, spdlog LogError
                                ''Could not enable multi threading for BAM generation.'' w1)
                     else
                       let out_header = map_option (\<lambda>x. x\<lparr>hdr_SO := ''coordinate''\<rparr>) header;
                           (res, w2) = sam_hdr_write out_fn out_header w1
                       in if res < 0
                          then Inr (False, spdlog LogError
                                 (''Failed to write header for sorted bam file '' @ out_fn) w2)
                          else
                            (case merge_loop callback_throws out_fn (length (m_temp_files h))
                                    slots 0 0 w2 of
                               Inl (e, w3) \<Rightarrow> Inl (e, (h, w3))
                             | Inr (False, w3) \<Rightarrow> Inr (False, w3)
                             | Inr (True, w3) \<Rightarrow>
                                 Inr (True, remove_files (m_temp_files h) w3)))))"

subsection \<open>finalise\<close>

text \<open>
  \<open>std::filesystem::rename\<close> moves the file, replacing the target; it throws when the
  source does not exist.
\<close>

definition fs_rename :: "string \<Rightarrow> string \<Rightarrow> world \<Rightarrow> hts_error + world" where
  "fs_rename from_fn to_fn w =
     (case files w from_fn of
        None \<Rightarrow> Inl (FilesystemError from_fn)
      | Some c \<Rightarrow> Inr (w\<lparr>files := ((files w)(from_fn := None))(to_fn \<mapsto> c)\<rparr>))"

definition sam_index_build :: "string \<Rightarrow> world \<Rightarrow> int \<times> world" where
  "sam_index_build fn w =
     (if index_build_fails w fn then (-1, w)
      else (0, w\<lparr>files := (files w)(fn @ ''.bai'' \<mapsto> IndexFile)\<rparr>))"

text \<open>The last section of \<open>finalise\<close>: index the final file.\<close>

definition index_final_file :: "ProgressCallback \<Rightarrow> bool \<Rightarrow> sys \<Rightarrow> sys thrown" where
  "index_final_file callback_throws file_is_mapped s =
     (case s of (h, w) \<Rightarrow>
        if file_is_mapped
        then (case progress_callback callback_throws 50 w of
                Inl e \<Rightarrow> Inl (e, s)
              | Inr w1 \<Rightarrow>
                  let (res, w2) = sam_index_build (m_filename h) w1
                  in if res < 0
                     then Inr (h, spdlog LogError
                                 (''Failed to build index for file '' @ m_filename h) w2)
                     else Inr (h, w2))
        else Inr s)"

text \<open>
  The body of \<open>finalise\<close> after \<open>progress_callback(0)\<close> and the construction of the
  post-condition object \<open>on_return\<close>.
\<close>

definition finalise_body :: "ProgressCallback \<Rightarrow> sys \<Rightarrow> sys thrown" where
  "finalise_body callback_throws s =
     (case s of (h, w) \<Rightarrow>
        if m_finalised h
        then Inr (h, spdlog LogError
                       ''finalise() called twice on a HtsFile. Ignoring second call.'' w)
        else
          let h1 = h\<lparr>m_finalised := True\<rparr>
          in if m_finalise_is_noop h1
             then Inr (h1\<lparr>m_header := None, m_file := None\<rparr>, w)
             else
               (case flush_temp_file None (h1, w) of
                  Inl e \<Rightarrow> Inl e
                | Inr (h2, w2) \<Rightarrow>
                    let file_is_mapped = (case m_header h2 of
                                            None \<Rightarrow> False
                                          | Some hd_val \<Rightarrow> hdr_nref hd_val > 0);
                        h3 = h2\<lparr>m_header := None\<rparr>
                    in if m_temp_files h3 = [] then Inr (h3, w2)
                       else if length (m_temp_files h3) = 1
                       then (case fs_rename (last (m_temp_files h3)) (m_filename h3) w2 of
                               Inl e \<Rightarrow> Inl (e, (h3, w2))
                             | Inr w3 \<Rightarrow>
                                 index_final_file callback_throws file_is_mapped
                                   (h3\<lparr>m_temp_files := []\<rparr>, w3))
                       else
                         (case progress_callback callback_throws 5 w2 of
                            Inl e \<Rightarrow> Inl (e, (h3, w2))
                          | Inr w2' \<Rightarrow>
                              (case merge_temp_files callback_throws (h3, w2') of
                                 Inl e \<Rightarrow> Inl e
                               | Inr (ok, w3) \<Rightarrow>
                                   if \<not> ok
                                   then Inr (h3, spdlog LogError
                                          ''Merging of temporary files failed. Skipping indexing.''
                                          w3)
                                   else index_final_file callback_throws file_is_mapped
                                          (h3, w3)))))"

text \<open>
  \<open>finalise\<close> itself. An exception of \<open>progress_callback(0)\<close> leaves the function before
  anything else has happened. After that the post-condition object \<open>on_return\<close> calls
  \<open>progress_callback(100)\<close> on every way out, also when an exception passes. The class
  \<open>PostCondition\<close> is outside the sources: an exception of that last call is modelled as
  leaving \<open>finalise\<close> in the state reached, whether it propagates or ends the process, and
  when an exception of the body is already on its way that exception is kept.
\<close>

definition finalise :: "ProgressCallback \<Rightarrow> sys \<Rightarrow> sys thrown" where
  "finalise callback_throws s =
     (case s of (h, w) \<Rightarrow>
        (case progress_callback callback_throws 0 w of
           Inl e \<Rightarrow> Inl (e, (h, w))
         | Inr w0 \<Rightarrow>
             (case finalise_body callback_throws (h, w0) of
                Inl (e, (h', w')) \<Rightarrow>
                  (case progress_callback callback_throws 100 w' of
                     Inl e' \<Rightarrow> Inl (e, (h', w'))
                   | Inr w'' \<Rightarrow> Inl (e, (h', w'')))
              | Inr (h', w') \<Rightarrow>
                  (case progress_callback callback_throws 100 w' of
                     Inl e' \<Rightarrow> Inl (e', (h', w'))
                   | Inr w'' \<Rightarrow> Inr (h', w'')))))"

subsection \<open>The constructor\<close>

text \<open>
  The constructor opens the output file, except for sorted BAM output to a real file,
  where it only marks \<open>finalise\<close> as having work to do. The buffer starts empty and
  \<open>m_finalised\<close> starts unset. BAM and UBAM files are BGZF-compressed, so multi-threading
  is switched on for them.
\<close>

definition HtsFile_ctor :: "string \<Rightarrow> OutputMode \<Rightarrow> nat \<Rightarrow> bool \<Rightarrow> world \<Rightarrow> sys thrown" where
  "HtsFile_ctor filename mode threads sort_bam w =
     (let h = \<lparr>m_filename = filename, m_threads = int threads, m_finalised = False,
               m_finalise_is_noop = True, m_sort_bam = sort_bam, m_mode = mode,
               m_file = None, m_header = None, m_temp_files = [], m_buffer_map = [],
               m_bam_buffer = Map.empty, m_bam_buffer_size = 0,
               m_current_buffer_offset = 0, m_num_records = 0\<rparr>
      in if mode = BAM \<and> filename \<noteq> ''-'' \<and> sort_bam
         then Inr (h\<lparr>m_finalise_is_noop := False\<rparr>, w)
         else
           let (handle, w1) = hts_open_write filename w;
               h1 = h\<lparr>m_file := handle\<rparr>
           in (case handle of
                 None \<Rightarrow> Inl (RuntimeError (''Could not open file: '' @ filename), (h1, w1))
               | Some fn \<Rightarrow>
                   if (mode = BAM \<or> mode = UBAM) \<and> bgzf_mt_fails w1 fn
                   then Inl (RuntimeError
                               ''Could not enable multi threading for BAM generation.'', (h1, w1))
                   else Inr (h1\<lparr>m_finalise_is_noop := True\<rparr>, w1)))"

subsection \<open>Using the sink\<close>

text \<open>
  Between construction and destruction a client calls \<open>set_buffer_size\<close>, \<open>set_header\<close>
  and \<open>write\<close> in some order. \<open>run_calls\<close> makes these calls one after the other and
  stops at the first exception; \<open>final_state\<close> is the state the object and the world are
  left in, whether the last call returned or threw.
\<close>

datatype hts_call = SetHeader "sam_hdr option" | SetBufferSize nat | Write bam1_t

fun run_call :: "hts_call \<Rightarrow> sys \<Rightarrow> sys thrown" where
  "run_call (SetHeader header) s = Inr (snd (set_header header s))"
| "run_call (SetBufferSize n) s = set_buffer_size n s"
| "run_call (Write r) s =
     (case HtsFile_write r s of Inl e \<Rightarrow> Inl e | Inr (res, s') \<Rightarrow> Inr s')"

fun run_calls :: "hts_call list \<Rightarrow> sys \<Rightarrow> sys thrown" where
  "run_calls [] s = Inr s"
| "run_calls (c # cs) s =
     (case run_call c s of Inl e \<Rightarrow> Inl e | Inr s' \<Rightarrow> run_calls cs s')"

definition final_state :: "sys thrown \<Rightarrow> sys" where
  "final_state r = (case r of Inl (e, s) \<Rightarrow> s | Inr s \<Rightarrow> s)"

text \<open>A world in which no I/O call fails, a header, some records and a fresh sorted sink.\<close>

definition world0 :: world where
  "world0 = \<lparr>files = Map.empty, log = [], progress = [], open_fails = (\<lambda>fn. False),
              bgzf_mt_fails = (\<lambda>fn. False), hdr_write_fails = (\<lambda>fn. False),
              rec_write_fails = (\<lambda>fn r. False), index_build_fails = (\<lambda>fn. False)\<rparr>"

definition hdr0 :: sam_hdr where
  "hdr0 = \<lparr>hdr_text = ''@SQ SN:chr1'', hdr_nref = 1, hdr_SO = ''unknown''\<rparr>"

definition rec_a :: bam1_t where
  "rec_a = \<lparr>tid = 0, pos = 10, l_data = 50000, payload = 1\<rparr>"

definition rec_b :: bam1_t where
  "rec_b = \<lparr>tid = 0, pos = 5, l_data = 60000, payload = 2\<rparr>"

definition sorted_sink0 :: sys where
  "sorted_sink0 = (\<lparr>m_filename = ''out.bam'', m_threads = 1, m_finalised = False,
               m_finalise_is_noop = False, m_sort_bam = True, m_mode = BAM,
               m_file = None, m_header = None, m_temp_files = [], m_buffer_map = [],
               m_bam_buffer = Map.empty, m_bam_buffer_size = 0,
               m_current_buffer_offset = 0, m_num_records = 0\<rparr>, world0)"

definition rec_c :: bam1_t where
  "rec_c = \<lparr>tid = 0, pos = 7, l_data = 100, payload = 3\<rparr>"

subsection \<open>The buffer map between flushes\<close>

text \<open>
  Every entry of the buffer map stands for a record that lies inside the buffer, under
  that record's sorting key, and the entries are in key order.
\<close>

definition buffer_map_ok :: "HtsFile \<Rightarrow> bool" where
  "buffer_map_ok h \<longleftrightarrow>
     sorted (map fst (m_buffer_map h)) \<and>
     (\<forall>e \<in> set (m_buffer_map h).
        \<exists>r. record_at h None (snd e) = Inr r \<and> fst e = calculate_sorting_key r)"

text \<open>
  Between flushes more is true: an entry lies below the current buffer offset, and the
  buffer is smaller than \<open>2^64\<close> bytes. This is what \<open>cache_record\<close> maintains.
\<close>

definition buffer_inv :: "HtsFile \<Rightarrow> bool" where
  "buffer_inv h \<longleftrightarrow>
     sorted (map fst (m_buffer_map h)) \<and>
     m_bam_buffer_size h < 2 ^ 64 \<and>
     (\<forall>e \<in> set (m_buffer_map h).
        0 \<le> snd e \<and>
        (\<exists>r. m_bam_buffer h (nat (snd e)) = Some r \<and> fst e = calculate_sorting_key r \<and>
             nat (snd e) + sizeof_bam1_t + l_data r \<le> m_current_buffer_offset h \<and>
             nat (snd e) + sizeof_bam1_t + l_data r \<le> m_bam_buffer_size h))"

text \<open>Calls that change the size of the buffer.\<close>

fun is_resize :: "hts_call \<Rightarrow> bool" where
  "is_resize (SetBufferSize n) = True"
| "is_resize c = False"

section \<open>Properties of the sorted-BAM sink\<close>

subsection \<open>The finalised flag\<close>

lemma sam_write1_oracles:
  "sam_write1 fn r w = (res, w') \<Longrightarrow>
   open_fails w' = open_fails w \<and> bgzf_mt_fails w' = bgzf_mt_fails w \<and>
   hdr_write_fails w' = hdr_write_fails w \<and> rec_write_fails w' = rec_write_fails w \<and>
   index_build_fails w' = index_build_fails w \<and> log w' = log w \<and> progress w' = progress w"
  by (auto simp: sam_write1_def split: if_splits option.splits file_content.splits)

lemma drain_buffer_map_object:
  "drain_buffer_map items last_record s = Inr s' \<Longrightarrow> fst s' = fst s"
  "drain_buffer_map items last_record s = Inl (e, s') \<Longrightarrow> fst s' = fst s"
proof (induction items arbitrary: s)
  case Nil
  { case 1 then show ?case by simp }
  { case 2 then show ?case by simp }
next
  case (Cons item items)
  { case 1 then show ?case using Cons.IH(1)
      by (auto simp: write_to_file_def split: sum.splits if_splits prod.splits option.splits) }
  { case 2 then show ?case using Cons.IH(2)
      by (auto simp: write_to_file_def split: sum.splits if_splits prod.splits option.splits) }
qed

lemma flush_temp_file_finalised:
  "flush_temp_file last_record (h, w) = Inr (h', w') \<Longrightarrow> m_finalised h' = m_finalised h"
  "flush_temp_file last_record (h, w) = Inl (e, (h', w')) \<Longrightarrow> m_finalised h' = m_finalised h"
  using drain_buffer_map_object
  by (auto simp: flush_temp_file_def Let_def hts_open_write_def split: if_splits option.splits prod.splits sum.splits dest!: drain_buffer_map_object)

lemma run_call_finalised:
  "m_finalised (fst (final_state (run_call c s))) = m_finalised (fst s)"
proof (cases s)
  case (Pair h w)
  show ?thesis
  proof (cases c)
    case (SetHeader x)
    then show ?thesis using Pair
      by (auto simp: final_state_def set_header_def Let_def split: option.splits prod.splits)
  next
    case (SetBufferSize n)
    then show ?thesis using Pair
      by (auto simp: final_state_def set_buffer_size_def)
  next
    case (Write r)
    then show ?thesis using Pair
      by (auto simp: final_state_def HtsFile_write_def cache_record_def write_to_file_def Let_def
          split: option.splits prod.splits sum.splits if_splits
          dest: flush_temp_file_finalised)
  qed
qed

lemma run_calls_finalised:
  "m_finalised (fst (final_state (run_calls cs s))) = m_finalised (fst s)"
proof (induction cs arbitrary: s)
  case Nil
  then show ?case by (simp add: final_state_def)
next
  case (Cons c cs)
  show ?case
  proof (cases "run_call c s")
    case (Inl a)
    then show ?thesis using run_call_finalised[of c s] by (simp add: final_state_def)
  next
    case (Inr s')
    then show ?thesis using run_call_finalised[of c s] Cons.IH[of s'] by (simp add: final_state_def)
  qed
qed

lemma HtsFile_ctor_unfinalised:
  "HtsFile_ctor filename mode threads sort_bam w = Inr s \<Longrightarrow> \<not> m_finalised (fst s)"
  by (auto simp: HtsFile_ctor_def Let_def split: if_splits prod.splits option.splits)

lemma index_final_file_object:
  "index_final_file callback_throws m s = Inr s' \<Longrightarrow> fst s' = fst s"
  "index_final_file callback_throws m s = Inl (e, s') \<Longrightarrow> fst s' = fst s"
  by (auto simp: index_final_file_def Let_def split: prod.splits sum.splits if_splits)

lemma index_final_file_flag:
  "m_finalised (fst s) \<Longrightarrow>
   m_finalised (fst (final_state (index_final_file callback_throws m s)))"
  by (auto simp: index_final_file_def final_state_def Let_def
      split: prod.splits sum.splits if_splits)

lemma merge_temp_files_object:
  "merge_temp_files callback_throws (h, w) = Inl (e, (h', w')) \<Longrightarrow> h' = h"
  by (auto simp: merge_temp_files_def Let_def split: sum.splits merge_abort.splits prod.splits option.splits if_splits bool.splits)

lemma finalise_body_sets_flag:
  "m_finalised (fst (final_state (finalise_body callback_throws (h, w))))"
proof (cases "m_finalised h \<or> m_finalise_is_noop h")
  case True
  then show ?thesis
    by (auto simp: finalise_body_def final_state_def)
next
  case False
  let ?h1 = "h\<lparr>m_finalised := True\<rparr>"
  show ?thesis
  proof (cases "flush_temp_file None (?h1, w)")
    case (Inl a)
    obtain e h' w' where a: "a = (e, (h', w'))"
      by (cases a) auto
    have "m_finalised h'"
      using flush_temp_file_finalised(2)[of None ?h1 w e h' w'] Inl a by simp
    then show ?thesis
      using False Inl a by (simp add: finalise_body_def final_state_def)
  next
    case (Inr b)
    obtain h2 w2 where b: "b = (h2, w2)"
      by (cases b) auto
    have fin: "m_finalised h2"
      using flush_temp_file_finalised(1)[of None ?h1 w h2 w2] Inr b by simp
    let ?h3 = "h2\<lparr>m_header := None\<rparr>"
    have index: "m_finalised (fst (final_state (index_final_file callback_throws m (?h3, w3))))"
      "m_finalised (fst (final_state
         (index_final_file callback_throws m (?h3\<lparr>m_temp_files := []\<rparr>, w3))))" for w3 m
      using fin by (simp_all add: index_final_file_flag)
    have merge: "m_finalised (fst (final_state
        (case merge_temp_files callback_throws (?h3, w3) of
           Inl e \<Rightarrow> Inl e
         | Inr (ok, w4) \<Rightarrow>
             if \<not> ok then Inr (?h3, g w4)
             else index_final_file callback_throws m (?h3, w4))))" for w3 g m
    proof (cases "merge_temp_files callback_throws (?h3, w3)")
      case (Inl c)
      obtain e h' w' where c: "c = (e, (h', w'))"
        by (cases c) auto
      then show ?thesis
        using Inl fin merge_temp_files_object[of callback_throws ?h3 w3 e h' w']
        by (simp add: final_state_def)
    next
      case (Inr d)
      then show ?thesis
        using fin index(1) by (cases d) (simp add: final_state_def)
    qed
    have body: "finalise_body callback_throws (h, w) =
       (if m_temp_files ?h3 = [] then Inr (?h3, w2)
        else if length (m_temp_files ?h3) = 1
        then (case fs_rename (last (m_temp_files ?h3)) (m_filename ?h3) w2 of
                Inl e \<Rightarrow> Inl (e, (?h3, w2))
              | Inr w3 \<Rightarrow>
                  index_final_file callback_throws
                    (case m_header h2 of None \<Rightarrow> False | Some hd_val \<Rightarrow> hdr_nref hd_val > 0)
                    (?h3\<lparr>m_temp_files := []\<rparr>, w3))
        else
          (case progress_callback callback_throws 5 w2 of
             Inl e \<Rightarrow> Inl (e, (?h3, w2))
           | Inr w2' \<Rightarrow>
               (case merge_temp_files callback_throws (?h3, w2') of
                  Inl e \<Rightarrow> Inl e
                | Inr (ok, w3) \<Rightarrow>
                    if \<not> ok
                    then Inr (?h3, spdlog LogError
                           ''Merging of temporary files failed. Skipping indexing.'' w3)
                    else index_final_file callback_throws
                           (case m_header h2 of None \<Rightarrow> False | Some hd_val \<Rightarrow> hdr_nref hd_val > 0)
                           (?h3, w3))))"
      using False Inr b by (simp add: finalise_body_def Let_def)
    show ?thesis
    proof (cases "m_temp_files ?h3 = []")
      case True
      then show ?thesis
        using body fin by (simp add: final_state_def)
    next
      case ne: False
      show ?thesis
      proof (cases "length (m_temp_files ?h3) = 1")
        case True
        then show ?thesis
          using body ne fin index(2)
          by (cases "fs_rename (last (m_temp_files ?h3)) (m_filename ?h3) w2")
             (simp_all add: final_state_def)
      next
        case False
        then show ?thesis
          using body ne fin merge
          by (cases "progress_callback callback_throws 5 w2")
             (simp_all add: final_state_def)
      qed
    qed
  qed
qed

lemma finalise_first_callback_throws:
  "callback_throws (Percent 0) \<Longrightarrow>
   finalise callback_throws (h, w) = Inl (CallbackException (Percent 0), (h, w))"
  by (simp add: finalise_def progress_callback_def call_progress_def)

lemma finalise_object:
  "\<not> callback_throws (Percent 0) \<Longrightarrow>
   fst (final_state (finalise callback_throws (h, w))) =
   fst (final_state (finalise_body callback_throws
                       (h, w\<lparr>progress := progress w @ [Percent 0]\<rparr>)))"
  by (auto simp: finalise_def final_state_def progress_callback_def call_progress_def
      split: sum.splits prod.splits)

lemma finalise_sets_flag:
  "\<not> callback_throws (Percent 0) \<Longrightarrow>
   m_finalised (fst (final_state (finalise callback_throws (h, w))))"
  using finalise_body_sets_flag[of callback_throws h "w\<lparr>progress := progress w @ [Percent 0]\<rparr>"]
  by (simp add: finalise_object)

lemma finalise_when_finalised:
  "m_finalised h \<Longrightarrow>
   finalise callback_throws (h, w) =
     (if callback_throws (Percent 0) then Inl (CallbackException (Percent 0), (h, w))
      else if callback_throws (Percent 100)
      then Inl (CallbackException (Percent 100),
                (h, w\<lparr>log := log w @ [(LogError,
                            ''finalise() called twice on a HtsFile. Ignoring second call.'')],
                       progress := progress w @ [Percent 0]\<rparr>))
      else Inr (h, w\<lparr>log := log w @ [(LogError,
                            ''finalise() called twice on a HtsFile. Ignoring second call.'')],
                     progress := progress w @ [Percent 0, Percent 100]\<rparr>))"
  by (simp add: finalise_def finalise_body_def progress_callback_def call_progress_def
      spdlog_def)

lemma sorted_sink0_constructed:
  "HtsFile_ctor ''out.bam'' BAM 1 True world0 = Inr sorted_sink0"
  by (simp add: HtsFile_ctor_def sorted_sink0_def)

text \<open>
  C9: the destructor aborts the process exactly when the finalised flag is unset. A
  constructed object on which only \<open>set_buffer_size\<close>, \<open>set_header\<close> and \<open>write\<close> were
  called (whether they returned or threw) still has the flag unset, so destroying it
  aborts; after a call of \<open>finalise\<close>, returning or throwing, the flag is set and the
  destructor does not abort, unless the flag was unset before and the call left with an
  exception of \<open>progress_callback(0)\<close>.
\<close>

theorem HtsFile_dtor_aborts_unless_finalised:
  "(fst (HtsFile_dtor (h, w)) = Aborted \<longleftrightarrow> \<not> m_finalised h) \<and>
   (HtsFile_ctor filename mode threads sort_bam w0 = Inr s \<longrightarrow>
      fst (HtsFile_dtor (final_state (run_calls calls s))) = Aborted) \<and>
   (fst (HtsFile_dtor (final_state (finalise callback_throws (h, w)))) = Destroyed \<longleftrightarrow>
      m_finalised h \<or> \<not> callback_throws (Percent 0))"
proof -
  have dtor: "\<And>h w. fst (HtsFile_dtor (h, w)) = Aborted \<longleftrightarrow> \<not> m_finalised h"
    by (simp add: HtsFile_dtor_def)
  have dtor': "\<And>s. fst (HtsFile_dtor s) = (if m_finalised (fst s) then Destroyed else Aborted)"
    by (simp add: HtsFile_dtor_def split: prod.splits)
  have calls: "HtsFile_ctor filename mode threads sort_bam w0 = Inr s \<longrightarrow>
      fst (HtsFile_dtor (final_state (run_calls calls s))) = Aborted"
    using run_calls_finalised[of calls s]
      HtsFile_ctor_unfinalised[of filename mode threads sort_bam w0 s]
    by (simp add: dtor')
  have fin: "fst (HtsFile_dtor (final_state (finalise callback_throws (h, w)))) = Destroyed \<longleftrightarrow>
      m_finalised h \<or> \<not> callback_throws (Percent 0)"
  proof (cases "callback_throws (Percent 0)")
    case True
    then show ?thesis
      by (simp add: finalise_first_callback_throws final_state_def dtor')
  next
    case False
    then show ?thesis
      using finalise_sets_flag[of callback_throws h w] by (simp add: dtor')
  qed
  show ?thesis
    using dtor calls fin by blast
qed

theorem HtsFile_dtor_aborts_unless_finalised_witness:
  "HtsFile_ctor ''out.bam'' BAM 1 True world0 = Inr sorted_sink0 \<and>
   fst (HtsFile_dtor (final_state (run_calls [SetBufferSize 100000, Write rec_a] sorted_sink0)))
     = Aborted \<and>
   fst (HtsFile_dtor (final_state (finalise (\<lambda>ev. False) sorted_sink0))) = Destroyed"
  using HtsFile_dtor_aborts_unless_finalised
          [of "fst sorted_sink0" "snd sorted_sink0" "''out.bam''" BAM 1 True world0 sorted_sink0
              "[SetBufferSize 100000, Write rec_a]" "\<lambda>ev. False"]
        sorted_sink0_constructed
  by simp

subsection \<open>What a flush writes\<close>

lemma multimap_insert_split:
  "multimap_insert kv xs =
     takeWhile (\<lambda>x. fst x \<le> fst kv) xs @ [kv] @ dropWhile (\<lambda>x. fst x \<le> fst kv) xs"
  by (induction xs) auto

lemma set_multimap_insert: "set (multimap_insert kv xs) = insert kv (set xs)"
  by (induction xs) auto

lemma multimap_insert_sorted:
  "sorted (map fst xs) \<Longrightarrow> sorted (map fst (multimap_insert kv xs))"
  by (induction xs) (auto simp: set_multimap_insert)

lemma drain_buffer_map_writes:
  assumes "m_file h = Some fn" and "m_mode h = FASTQ \<or> m_header h \<noteq> None"
    and "\<forall>r. \<not> rec_write_fails w fn r"
    and "files w fn = Some (BamFile fh rs0)"
    and "list_all2 (\<lambda>e r. record_at h last_record (snd e) = Inr r) items recs"
  shows "drain_buffer_map items last_record (h, w) =
           Inr (h, w\<lparr>files := (files w)(fn \<mapsto> BamFile fh (rs0 @ recs))\<rparr>)"
  using assms(3-5)
proof (induction items arbitrary: w rs0 recs)
  case Nil
  have "(files w)(fn \<mapsto> BamFile fh rs0) = files w"
    using Nil.prems(2) by (rule map_upd_triv)
  then show ?case
    using Nil.prems(3) by simp
next
  case (Cons item items)
  from Cons.prems(3) obtain r recs' where recs: "recs = r # recs'"
    and r: "record_at h last_record (snd item) = Inr r"
    and rest: "list_all2 (\<lambda>e r. record_at h last_record (snd e) = Inr r) items recs'"
    by (auto simp: list_all2_Cons1)
  let ?w1 = "w\<lparr>files := (files w)(fn \<mapsto> BamFile fh (rs0 @ [r]))\<rparr>"
  have wr: "write_to_file r (h, w) = Inr (0, ?w1)"
    using assms(1,2) Cons.prems(1,2) by (auto simp: write_to_file_def sam_write1_def)
  let ?w2 = "w\<lparr>files := (files w)(fn \<mapsto> BamFile fh (rs0 @ recs))\<rparr>"
  have ih: "drain_buffer_map items last_record (h, ?w1) =
          Inr (h, ?w1\<lparr>files := (files ?w1)(fn \<mapsto> BamFile fh ((rs0 @ [r]) @ recs'))\<rparr>)"
    using Cons.prems(1) rest by (intro Cons.IH) auto
  have same: "?w1\<lparr>files := (files ?w1)(fn \<mapsto> BamFile fh ((rs0 @ [r]) @ recs'))\<rparr> = ?w2"
    using recs by simp
  have "drain_buffer_map (item # items) last_record (h, w) =
          drain_buffer_map items last_record (h, ?w1)"
    using r wr by simp
  also have "\<dots> = Inr (h, ?w2)"
    unfolding ih same ..
  finally show ?case .
qed


lemma list_all2_exists:
  "\<forall>x \<in> set xs. \<exists>y. P x y \<Longrightarrow> \<exists>ys. list_all2 P xs ys"
proof (induction xs)
  case Nil
  then show ?case by simp
next
  case (Cons x xs)
  then obtain y ys where "P x y" "list_all2 P xs ys" by auto
  then have "list_all2 P (x # xs) (y # ys)" by simp
  then show ?case ..
qed

lemma record_at_buffered:
  assumes "record_at h None off = Inr r"
    and "m_bam_buffer h' = m_bam_buffer h" and "m_bam_buffer_size h' = m_bam_buffer_size h"
  shows "record_at h' last_record off = Inr r"
  using assms by (auto simp: record_at_def split: if_splits option.splits)

lemma hts_open_write_ok:
  "\<not> open_fails w fn \<Longrightarrow>
   hts_open_write fn w = (Some fn, w\<lparr>files := (files w)(fn \<mapsto> BamFile None [])\<rparr>)"
  by (simp add: hts_open_write_def)

text \<open>
  The buffer map is as described in every state that a sorted sink reaches when the
  buffer size is set once, before the first record is written.
\<close>

lemma buffer_inv_ok: "buffer_inv h \<Longrightarrow> buffer_map_ok h"
  unfolding buffer_inv_def buffer_map_ok_def
proof (intro conjI ballI)
  assume a: "sorted (map fst (m_buffer_map h)) \<and> m_bam_buffer_size h < 2 ^ 64 \<and>
     (\<forall>e \<in> set (m_buffer_map h).
        0 \<le> snd e \<and>
        (\<exists>r. m_bam_buffer h (nat (snd e)) = Some r \<and> fst e = calculate_sorting_key r \<and>
             nat (snd e) + sizeof_bam1_t + l_data r \<le> m_current_buffer_offset h \<and>
             nat (snd e) + sizeof_bam1_t + l_data r \<le> m_bam_buffer_size h))"
  then show "sorted (map fst (m_buffer_map h))" by simp
  fix e assume e: "e \<in> set (m_buffer_map h)"
  then obtain r where r: "0 \<le> snd e" "m_bam_buffer h (nat (snd e)) = Some r"
    "fst e = calculate_sorting_key r"
    "nat (snd e) + sizeof_bam1_t + l_data r \<le> m_bam_buffer_size h"
    using a by blast
  have "nat (snd e) < 2 ^ 64"
    using r(4) a by linarith
  then have small: "snd e < 2 ^ 64"
    using r(1) by (simp add: nat_less_iff)
  then have "size_t_of (snd e) = nat (snd e)"
    using r(1) by (simp add: size_t_of_def)
  moreover have "snd e \<noteq> -1" using r(1) by simp
  ultimately have "record_at h None (snd e) = Inr r"
    using r by (simp add: record_at_def)
  then show "\<exists>r. record_at h None (snd e) = Inr r \<and> fst e = calculate_sorting_key r"
    using r(3) by blast
qed

lemma buffer_inv_ctor:
  "HtsFile_ctor filename mode threads sort_bam w = Inr s \<Longrightarrow> buffer_inv (fst s)"
  by (auto simp: HtsFile_ctor_def Let_def buffer_inv_def hts_open_write_def
      split: if_splits prod.splits option.splits)

lemma buffer_inv_flush:
  "flush_temp_file last_record (h, w) = Inr (h', w') \<Longrightarrow> buffer_inv h \<Longrightarrow> buffer_inv h'"
  by (auto simp: flush_temp_file_def Let_def hts_open_write_def buffer_inv_def
      split: if_splits option.splits prod.splits sum.splits
      dest!: drain_buffer_map_object(1))

lemma buffer_inv_cache_record:
  assumes "cache_record record (h, w) = Inr (res, (h', w'))" and inv: "buffer_inv h"
  shows "buffer_inv h'"
proof (cases "m_current_buffer_offset h + (sizeof_bam1_t + l_data record) > m_bam_buffer_size h")
  case True
  then show ?thesis
    using assms buffer_inv_flush[of "Some record" h w h' w']
    by (auto simp: cache_record_def Let_def split: sum.splits)
next
  case False
  let ?off = "m_current_buffer_offset h"
  have h': "h' = h\<lparr>m_buffer_map := multimap_insert (calculate_sorting_key record, int ?off) (m_buffer_map h),
                   m_bam_buffer := (m_bam_buffer h)(?off \<mapsto> record),
                   m_current_buffer_offset := ((?off + sizeof_bam1_t + l_data record + 7) div 8) * 8\<rparr>"
    using assms(1) False by (simp add: cache_record_def Let_def)
  have grow: "?off + sizeof_bam1_t + l_data record \<le> ((?off + sizeof_bam1_t + l_data record + 7) div 8) * 8"
    by presburger
  have fits: "?off + sizeof_bam1_t + l_data record \<le> m_bam_buffer_size h"
    using False by simp
  have old: "\<And>e. e \<in> set (m_buffer_map h) \<Longrightarrow> nat (snd e) \<noteq> ?off"
    using inv by (fastforce simp: buffer_inv_def sizeof_bam1_t_def)
  show ?thesis
    unfolding buffer_inv_def h'
    using inv grow fits old
    by (auto simp: buffer_inv_def multimap_insert_sorted set_multimap_insert)
qed


lemma buffer_inv_same_buffer:
  assumes "buffer_inv h" and "m_buffer_map h' = m_buffer_map h"
    and "m_bam_buffer h' = m_bam_buffer h" and "m_bam_buffer_size h' = m_bam_buffer_size h"
    and "m_current_buffer_offset h' = m_current_buffer_offset h"
  shows "buffer_inv h'"
  using assms by (simp add: buffer_inv_def)

lemma buffer_inv_grow:
  assumes "buffer_inv h" and "n < 2 ^ 64" and "m_bam_buffer_size h \<le> n"
  shows "buffer_inv (h\<lparr>m_bam_buffer_size := n\<rparr>)"
  unfolding buffer_inv_def
proof (intro conjI ballI)
  show "sorted (map fst (m_buffer_map (h\<lparr>m_bam_buffer_size := n\<rparr>)))"
    using assms(1) by (simp add: buffer_inv_def)
  show "m_bam_buffer_size (h\<lparr>m_bam_buffer_size := n\<rparr>) < 2 ^ 64"
    using assms(2) by simp
  fix e assume "e \<in> set (m_buffer_map (h\<lparr>m_bam_buffer_size := n\<rparr>))"
  then have e: "e \<in> set (m_buffer_map h)" by simp
  then show "0 \<le> snd e"
    using assms(1) by (simp add: buffer_inv_def)
  obtain r where "m_bam_buffer h (nat (snd e)) = Some r" "fst e = calculate_sorting_key r"
      "nat (snd e) + sizeof_bam1_t + l_data r \<le> m_current_buffer_offset h"
      "nat (snd e) + sizeof_bam1_t + l_data r \<le> m_bam_buffer_size h"
    using assms(1) e unfolding buffer_inv_def by blast
  then show "\<exists>r. m_bam_buffer (h\<lparr>m_bam_buffer_size := n\<rparr>) (nat (snd e)) = Some r \<and>
      fst e = calculate_sorting_key r \<and>
      nat (snd e) + sizeof_bam1_t + l_data r
        \<le> m_current_buffer_offset (h\<lparr>m_bam_buffer_size := n\<rparr>) \<and>
      nat (snd e) + sizeof_bam1_t + l_data r \<le> m_bam_buffer_size (h\<lparr>m_bam_buffer_size := n\<rparr>)"
    using assms(3) by (intro exI[of _ r]) simp
qed

lemma set_header_object:
  "set_header header (h, w) = (res, (h', w')) \<Longrightarrow>
   m_buffer_map h' = m_buffer_map h \<and> m_bam_buffer h' = m_bam_buffer h \<and>
   m_bam_buffer_size h' = m_bam_buffer_size h \<and>
   m_current_buffer_offset h' = m_current_buffer_offset h"
  by (auto simp: set_header_def Let_def split: option.splits prod.splits)

lemma buffer_inv_run_call:
  assumes run: "run_call c (h, w) = Inr (h', w')" and inv: "buffer_inv h"
    and resize: "\<And>n. c = SetBufferSize n \<Longrightarrow> n < 2 ^ 64 \<and> m_bam_buffer_size h \<le> n"
  shows "buffer_inv h'"
proof (cases c)
  case (SetHeader header)
  obtain res h1 w1 where sh: "set_header header (h, w) = (res, (h1, w1))"
    by (cases "set_header header (h, w)") auto
  have "h' = h1"
    using run SetHeader sh by simp
  then show ?thesis
    using set_header_object[OF sh] buffer_inv_same_buffer[OF inv, of h1] by blast
next
  case (SetBufferSize n)
  have n: "n < 2 ^ 64" "m_bam_buffer_size h \<le> n"
    using resize[OF SetBufferSize] by simp_all
  have "h' = h\<lparr>m_bam_buffer_size := n\<rparr>"
    using run SetBufferSize by (simp add: set_buffer_size_def split: if_splits)
  then show ?thesis
    using buffer_inv_grow[OF inv n] by simp
next
  case (Write r)
  let ?h1 = "h\<lparr>m_num_records := m_num_records h + 1\<rparr>"
  have inv1: "buffer_inv ?h1"
    by (rule buffer_inv_same_buffer[OF inv]) simp_all
  show ?thesis
  proof (cases "m_file h")
    case None
    have "HtsFile_write r (h, w) = cache_record r (?h1, w)"
      using None by (simp add: HtsFile_write_def Let_def)
    then obtain res where "cache_record r (?h1, w) = Inr (res, (h', w'))"
      using run Write by (cases "cache_record r (?h1, w)") auto
    then show ?thesis
      using inv1 by (rule buffer_inv_cache_record)
  next
    case (Some fn)
    have "h' = ?h1"
      using run Write Some
      by (simp add: HtsFile_write_def Let_def write_to_file_def split: if_splits prod.splits)
    then show ?thesis
      using inv1 by simp
  qed
qed

lemma buffer_inv_run_calls:
  assumes "run_calls calls s = Inr s'" and "buffer_inv (fst s)"
    and "list_all (\<lambda>c. \<not> is_resize c) calls"
  shows "buffer_inv (fst s')"
  using assms
proof (induction calls arbitrary: s)
  case Nil
  then show ?case by simp
next
  case (Cons c calls)
  obtain s1 where s1: "run_call c s = Inr s1" "run_calls calls s1 = Inr s'"
    using Cons.prems(1) by (cases "run_call c s") auto
  have no: "\<And>n. c \<noteq> SetBufferSize n"
    using Cons.prems(3) by auto
  have "run_call c (fst s, snd s) = Inr (fst s1, snd s1)"
    using s1(1) by simp
  then have "buffer_inv (fst s1)"
    using Cons.prems(2)
  proof (rule buffer_inv_run_call)
    fix m assume "c = SetBufferSize m"
    then show "m < 2 ^ 64 \<and> m_bam_buffer_size (fst s) \<le> m"
      using no by simp
  qed
  moreover have "list_all (\<lambda>c. \<not> is_resize c) calls"
    using Cons.prems(3) by simp
  ultimately show ?case
    using Cons.IH[OF s1(2)] by blast
qed

lemma buffer_map_ok_reached:
  assumes ctor: "HtsFile_ctor filename mode threads sort_bam w = Inr s0"
    and n: "n < 2 ^ 64"
    and calls: "list_all (\<lambda>c. \<not> is_resize c) calls"
    and run: "run_calls (SetBufferSize n # calls) s0 = Inr s"
  shows "buffer_map_ok (fst s)"
proof -
  obtain s1 where s1: "run_call (SetBufferSize n) s0 = Inr s1" "run_calls calls s1 = Inr s"
    using run by (cases "run_call (SetBufferSize n) s0") auto
  have size0: "m_bam_buffer_size (fst s0) = 0"
    using ctor by (auto simp: HtsFile_ctor_def Let_def hts_open_write_def
        split: if_splits prod.splits option.splits)
  have "run_call (SetBufferSize n) (fst s0, snd s0) = Inr (fst s1, snd s1)"
    using s1(1) by simp
  then have "buffer_inv (fst s1)"
    using buffer_inv_ctor[OF ctor]
  proof (rule buffer_inv_run_call)
    fix m assume "SetBufferSize n = SetBufferSize m"
    then show "m < 2 ^ 64 \<and> m_bam_buffer_size (fst s0) \<le> m"
      using n size0 by simp
  qed
  then have "buffer_inv (fst s)"
    using buffer_inv_run_calls[OF s1(2) _ calls] by blast
  then show ?thesis
    by (rule buffer_inv_ok)
qed

text \<open>
  C4, as the code has it: when a record does not fit, it is put into the buffer map under
  its own sorting key with offset \<open>-1\<close>, after the buffered entries with a smaller or
  equal key and before those with a greater key, and the map is drained in key order into
  the new temporary file. So the file holds the buffered records with a key up to the
  record's, then the record itself, then the buffered records with a greater key, and the
  whole file is in key order. The record is written last only when no buffered record has
  a greater key.
\<close>

theorem cache_record_flush_in_key_order:
  assumes ok: "buffer_map_ok h"
    and hdr: "m_header h = Some hd_val"
    and full: "m_current_buffer_offset h + (sizeof_bam1_t + l_data record) > m_bam_buffer_size h"
    and tmp: "tmp = m_filename h @ ''.'' @ to_string (length (m_temp_files h)) @ ''.tmp''"
    and io: "\<not> open_fails w tmp" "\<not> bgzf_mt_fails w tmp" "\<not> hdr_write_fails w tmp"
      "\<forall>r. \<not> rec_write_fails w tmp r"
  shows "\<exists>before after.
     cache_record record (h, w) =
       Inr (0, (h\<lparr>m_temp_files := m_temp_files h @ [tmp], m_file := None,
                  m_current_buffer_offset := 0, m_buffer_map := []\<rparr>,
                w\<lparr>files := (files w)(tmp \<mapsto> BamFile (Some hd_val) (before @ [record] @ after))\<rparr>)) \<and>
     list_all2 (\<lambda>e r. record_at h None (snd e) = Inr r)
       (takeWhile (\<lambda>e. fst e \<le> calculate_sorting_key record) (m_buffer_map h)) before \<and>
     list_all2 (\<lambda>e r. record_at h None (snd e) = Inr r)
       (dropWhile (\<lambda>e. fst e \<le> calculate_sorting_key record) (m_buffer_map h)) after \<and>
     sorted (map calculate_sorting_key (before @ [record] @ after))"
proof -
  let ?k = "calculate_sorting_key record"
  let ?bm = "m_buffer_map h"
  let ?P = "\<lambda>e r. record_at h None (snd e) = Inr r \<and> fst e = calculate_sorting_key r"
  let ?le = "takeWhile (\<lambda>e. fst e \<le> ?k) ?bm"
  let ?gt = "dropWhile (\<lambda>e. fst e \<le> ?k) ?bm"
  have all: "\<forall>e \<in> set ?bm. \<exists>r. ?P e r"
    using ok by (simp add: buffer_map_ok_def)
  have "\<forall>e \<in> set ?le. \<exists>r. ?P e r"
    using all by (meson set_takeWhileD)
  then obtain before where before: "list_all2 ?P ?le before"
    using list_all2_exists[of ?le ?P] by blast
  have "\<forall>e \<in> set ?gt. \<exists>r. ?P e r"
    using all by (meson set_dropWhileD)
  then obtain after where after: "list_all2 ?P ?gt after"
    using list_all2_exists[of ?gt ?P] by blast
  let ?items = "multimap_insert (?k, -1) ?bm"
  let ?recs = "before @ [record] @ after"
  have items: "?items = ?le @ [(?k, -1)] @ ?gt"
    using multimap_insert_split[of "(?k, -1)" ?bm] by simp
  define h3 where
    "h3 = h\<lparr>m_buffer_map := ?items, m_temp_files := m_temp_files h @ [tmp], m_file := Some tmp\<rparr>"
  have h3_fields: "m_bam_buffer h3 = m_bam_buffer h" "m_bam_buffer_size h3 = m_bam_buffer_size h"
    "m_file h3 = Some tmp" "m_header h3 = Some hd_val" "m_buffer_map h3 = ?items"
    using hdr by (simp_all add: h3_def)
  let ?w1 = "w\<lparr>files := (files w)(tmp \<mapsto> BamFile None [])\<rparr>"
  let ?w2 = "w\<lparr>files := (files w)(tmp \<mapsto> BamFile (Some hd_val) [])\<rparr>"
  let ?w3 = "w\<lparr>files := (files w)(tmp \<mapsto> BamFile (Some hd_val) ?recs)\<rparr>"
  let ?Q = "\<lambda>e r. record_at h3 (Some record) (snd e) = Inr r"
  have Q_before: "list_all2 ?Q ?le before"
    using before by (rule list_all2_mono) (auto intro: record_at_buffered simp: h3_fields)
  have Q_after: "list_all2 ?Q ?gt after"
    using after by (rule list_all2_mono) (auto intro: record_at_buffered simp: h3_fields)
  have Q_last: "list_all2 ?Q [(?k, -1)] [record]"
    by (simp add: record_at_def)
  have Q_all: "list_all2 ?Q ?items ?recs"
    unfolding items using Q_before Q_last Q_after by (intro list_all2_appendI)
  have drain: "drain_buffer_map ?items (Some record) (h3, ?w2) =
                 Inr (h3, ?w2\<lparr>files := (files ?w2)(tmp \<mapsto> BamFile (Some hd_val) ([] @ ?recs))\<rparr>)"
    using io(4) h3_fields Q_all by (intro drain_buffer_map_writes) auto
  have w23: "?w2\<lparr>files := (files ?w2)(tmp \<mapsto> BamFile (Some hd_val) ([] @ ?recs))\<rparr> = ?w3"
    by simp
  have hdrw: "sam_hdr_write tmp (Some hd_val) ?w1 = (0, ?w2)"
    using io(3) by (simp add: sam_hdr_write_def)
  have flush: "flush_temp_file (Some record) (h, w) =
     Inr (h\<lparr>m_temp_files := m_temp_files h @ [tmp], m_file := None,
            m_current_buffer_offset := 0, m_buffer_map := []\<rparr>, ?w3)"
    using io(1,2) hdr hdrw drain w23 tmp
    by (simp add: flush_temp_file_def hts_open_write_def Let_def h3_def)
  have cache: "cache_record record (h, w) =
     Inr (0, (h\<lparr>m_temp_files := m_temp_files h @ [tmp], m_file := None,
            m_current_buffer_offset := 0, m_buffer_map := []\<rparr>, ?w3))"
    using full flush by (simp add: cache_record_def Let_def)
  have keys_le: "map fst ?le = map calculate_sorting_key before"
    using before by (induction rule: list_all2_induct) auto
  have keys_gt: "map fst ?gt = map calculate_sorting_key after"
    using after by (induction rule: list_all2_induct) auto
  have "map calculate_sorting_key ?recs = map fst ?items"
    unfolding items using keys_le keys_gt by simp
  moreover have "sorted (map fst ?items)"
    using ok by (simp add: buffer_map_ok_def multimap_insert_sorted)
  ultimately have sorted: "sorted (map calculate_sorting_key ?recs)"
    by simp
  have "list_all2 (\<lambda>e r. record_at h None (snd e) = Inr r) ?le before"
    using before by (rule list_all2_mono) simp
  moreover have "list_all2 (\<lambda>e r. record_at h None (snd e) = Inr r) ?gt after"
    using after by (rule list_all2_mono) simp
  ultimately show ?thesis
    using cache sorted by blast
qed

definition sink_one_buffered :: HtsFile where
  "sink_one_buffered =
     \<lparr>m_filename = ''out.bam'', m_threads = 1, m_finalised = False,
      m_finalise_is_noop = False, m_sort_bam = True, m_mode = BAM,
      m_file = None, m_header = Some hdr0, m_temp_files = [], m_buffer_map = [(10, 0)],
      m_bam_buffer = [0 \<mapsto> rec_a], m_bam_buffer_size = 100000,
      m_current_buffer_offset = 50080, m_num_records = 1\<rparr>"

lemma to_string_0: "to_string 0 = ''0''"
  by (simp add: to_string.simps digit_char_def)

lemma key_rec_a: "calculate_sorting_key rec_a = 10"
  by (simp add: calculate_sorting_key_def rec_a_def)

lemma key_rec_b: "calculate_sorting_key rec_b = 5"
  by (simp add: calculate_sorting_key_def rec_b_def)

lemma sink_one_buffered_reached:
  "run_calls [SetBufferSize 100000, SetHeader (Some hdr0), Write rec_a] sorted_sink0 =
     Inr (sink_one_buffered, world0)"
  by (simp add: sorted_sink0_def sink_one_buffered_def set_buffer_size_def
      MINIMUM_BUFFER_SIZE_def set_header_def HtsFile_write_def cache_record_def Let_def
      sizeof_bam1_t_def key_rec_a rec_a_def[THEN arg_cong, of l_data])

lemma sink_one_buffered_ok: "buffer_map_ok sink_one_buffered"
  by (simp add: buffer_map_ok_def sink_one_buffered_def record_at_def size_t_of_def
      sizeof_bam1_t_def key_rec_a rec_a_def[THEN arg_cong, of l_data])

theorem cache_record_flush_in_key_order_witness:
  "buffer_map_ok sink_one_buffered \<and>
   m_current_buffer_offset sink_one_buffered + (sizeof_bam1_t + l_data rec_b)
     > m_bam_buffer_size sink_one_buffered \<and>
   cache_record rec_b (sink_one_buffered, world0) =
     Inr (0, (sink_one_buffered\<lparr>m_temp_files := [''out.bam.0.tmp''], m_file := None,
                m_current_buffer_offset := 0, m_buffer_map := []\<rparr>,
              world0\<lparr>files := [''out.bam.0.tmp'' \<mapsto> BamFile (Some hdr0) [rec_b, rec_a]]\<rparr>))"
proof -
  have full: "m_current_buffer_offset sink_one_buffered + (sizeof_bam1_t + l_data rec_b)
                > m_bam_buffer_size sink_one_buffered"
    by (simp add: sink_one_buffered_def sizeof_bam1_t_def rec_b_def)
  have tmp: "''out.bam.0.tmp'' =
      m_filename sink_one_buffered @ ''.'' @ to_string (length (m_temp_files sink_one_buffered))
        @ ''.tmp''"
    by (simp add: sink_one_buffered_def to_string_0)
  have hdr: "m_header sink_one_buffered = Some hdr0"
    by (simp add: sink_one_buffered_def)
  obtain before after where
    res: "cache_record rec_b (sink_one_buffered, world0) =
       Inr (0, (sink_one_buffered\<lparr>m_temp_files := m_temp_files sink_one_buffered @ [''out.bam.0.tmp''],
                  m_file := None, m_current_buffer_offset := 0, m_buffer_map := []\<rparr>,
                world0\<lparr>files := (files world0)(''out.bam.0.tmp'' \<mapsto>
                          BamFile (Some hdr0) (before @ [rec_b] @ after))\<rparr>))"
    and b: "list_all2 (\<lambda>e r. record_at sink_one_buffered None (snd e) = Inr r)
       (takeWhile (\<lambda>e. fst e \<le> calculate_sorting_key rec_b) (m_buffer_map sink_one_buffered))
       before"
    and a: "list_all2 (\<lambda>e r. record_at sink_one_buffered None (snd e) = Inr r)
       (dropWhile (\<lambda>e. fst e \<le> calculate_sorting_key rec_b) (m_buffer_map sink_one_buffered))
       after"
    using cache_record_flush_in_key_order[OF sink_one_buffered_ok hdr full tmp, of world0]
    by (auto simp: world0_def)
  have "before = []"
    using b by (simp add: key_rec_b sink_one_buffered_def)
  moreover have "after = [rec_a]"
    using a by (simp add: key_rec_b sink_one_buffered_def record_at_def size_t_of_def
        sizeof_bam1_t_def rec_a_def[THEN arg_cong, of l_data] list_all2_Cons1)
  ultimately show ?thesis
    using res full sink_one_buffered_ok
    by (simp add: sink_one_buffered_def world0_def)
qed

text \<open>
  C4 as it is worded fails: a record with position 10 is buffered, a record with position
  5 does not fit and triggers the flush, and the temporary file holds the record that did
  not fit first, before the buffered one.
\<close>

theorem flush_unfit_record_written_last_counterexample:
  "run_calls [SetBufferSize 100000, SetHeader (Some hdr0), Write rec_a] sorted_sink0 =
     Inr (sink_one_buffered, world0) \<and>
   files (snd (final_state (run_call (Write rec_b) (sink_one_buffered, world0))))
     ''out.bam.0.tmp'' = Some (BamFile (Some hdr0) [rec_b, rec_a]) \<and>
   last [rec_b, rec_a] \<noteq> rec_b"
proof -
  have "files (snd (final_state (run_call (Write rec_b) (sink_one_buffered, world0))))
     ''out.bam.0.tmp'' = Some (BamFile (Some hdr0) [rec_b, rec_a])"
    by (simp add: sink_one_buffered_def world0_def final_state_def HtsFile_write_def
        cache_record_def flush_temp_file_def Let_def sizeof_bam1_t_def key_rec_a key_rec_b
        hts_open_write_def sam_hdr_write_def to_string_0 record_at_def size_t_of_def
        write_to_file_def sam_write1_def rec_a_def[THEN arg_cong, of l_data]
        rec_b_def[THEN arg_cong, of l_data])
  moreover have "last [rec_b, rec_a] \<noteq> rec_b"
    by (simp add: rec_a_def rec_b_def)
  ultimately show ?thesis
    using sink_one_buffered_reached by simp
qed

subsection \<open>A second call of finalise\<close>

text \<open>
  A sink with one buffered record, finalised in a world where nothing fails and with a
  callback that never throws: the record is flushed to a temporary file, the file is
  renamed to the output file, and the index is built.
\<close>

definition never_throws :: ProgressCallback where
  "never_throws ev = False"

definition throws_at_start :: ProgressCallback where
  "throws_at_start ev = (ev = Percent 0)"

definition finalised_sink :: sys where
  "finalised_sink =
     (sink_one_buffered\<lparr>m_finalised := True, m_header := None, m_temp_files := [],
        m_buffer_map := [], m_current_buffer_offset := 0\<rparr>,
      world0\<lparr>files := [''out.bam'' \<mapsto> BamFile (Some hdr0) [rec_a], ''out.bam.bai'' \<mapsto> IndexFile],
             progress := [Percent 0, Percent 50, Percent 100]\<rparr>)"

lemma finalise_sink_one_buffered:
  "finalise never_throws (sink_one_buffered, world0) = Inr finalised_sink"
  by (simp add: finalise_def finalise_body_def progress_callback_def call_progress_def
      never_throws_def flush_temp_file_def sink_one_buffered_def world0_def Let_def
      hts_open_write_def sam_hdr_write_def to_string_0 record_at_def size_t_of_def
      sizeof_bam1_t_def write_to_file_def sam_write1_def rec_a_def[THEN arg_cong, of l_data]
      fs_rename_def index_final_file_def sam_index_build_def hdr0_def[THEN arg_cong, of hdr_nref]
      finalised_sink_def fun_upd_twist)

text \<open>
  C5, as the code has it: once a call of \<open>finalise\<close> got past its first call of the
  progress callback (it returned or threw later, leaving the object \<open>h1\<close> and the world
  \<open>w1\<close>), a further call leaves every member of the object and every file as it was. It
  calls the progress callback with 0, appends one entry to the log, written with
  \<open>spdlog::error\<close>, calls the progress callback with 100 and returns; an exception of
  either call of the callback leaves \<open>finalise\<close> at that point.
\<close>

theorem finalise_second_call_ignored:
  assumes "final_state (finalise first_callback s) = (h1, w1)"
    and "\<not> first_callback (Percent 0)"
  shows "finalise callback_throws (h1, w1) =
     (if callback_throws (Percent 0) then Inl (CallbackException (Percent 0), (h1, w1))
      else if callback_throws (Percent 100)
      then Inl (CallbackException (Percent 100),
                (h1, w1\<lparr>log := log w1 @ [(LogError,
                              ''finalise() called twice on a HtsFile. Ignoring second call.'')],
                         progress := progress w1 @ [Percent 0]\<rparr>))
      else Inr (h1, w1\<lparr>log := log w1 @ [(LogError,
                              ''finalise() called twice on a HtsFile. Ignoring second call.'')],
                       progress := progress w1 @ [Percent 0, Percent 100]\<rparr>)) \<and>
     fst (final_state (finalise callback_throws (h1, w1))) = h1 \<and>
     files (snd (final_state (finalise callback_throws (h1, w1)))) = files w1"
proof -
  have "m_finalised h1"
    using finalise_sets_flag[of first_callback "fst s" "snd s"] assms by simp
  then have second: "finalise callback_throws (h1, w1) =
     (if callback_throws (Percent 0) then Inl (CallbackException (Percent 0), (h1, w1))
      else if callback_throws (Percent 100)
      then Inl (CallbackException (Percent 100),
                (h1, w1\<lparr>log := log w1 @ [(LogError,
                              ''finalise() called twice on a HtsFile. Ignoring second call.'')],
                         progress := progress w1 @ [Percent 0]\<rparr>))
      else Inr (h1, w1\<lparr>log := log w1 @ [(LogError,
                              ''finalise() called twice on a HtsFile. Ignoring second call.'')],
                       progress := progress w1 @ [Percent 0, Percent 100]\<rparr>))"
    by (rule finalise_when_finalised)
  then show ?thesis
    by (simp add: final_state_def)
qed

theorem finalise_second_call_ignored_witness:
  "final_state (finalise never_throws (sink_one_buffered, world0)) = finalised_sink \<and>
   finalise never_throws finalised_sink =
     Inr (fst finalised_sink,
          world0\<lparr>files := [''out.bam'' \<mapsto> BamFile (Some hdr0) [rec_a],
                            ''out.bam.bai'' \<mapsto> IndexFile],
                 log := [(LogError,
                          ''finalise() called twice on a HtsFile. Ignoring second call.'')],
                 progress := [Percent 0, Percent 50, Percent 100, Percent 0, Percent 100]\<rparr>) \<and>
   files (snd (final_state (finalise never_throws finalised_sink))) =
     [''out.bam'' \<mapsto> BamFile (Some hdr0) [rec_a], ''out.bam.bai'' \<mapsto> IndexFile]"
proof -
  have first: "final_state (finalise never_throws (sink_one_buffered, world0)) =
                 (fst finalised_sink, snd finalised_sink)"
    by (simp add: finalise_sink_one_buffered final_state_def)
  have passed: "\<not> never_throws (Percent 0)"
    by (simp add: never_throws_def)
  have w1: "snd finalised_sink =
     world0\<lparr>files := [''out.bam'' \<mapsto> BamFile (Some hdr0) [rec_a],
                       ''out.bam.bai'' \<mapsto> IndexFile],
            progress := [Percent 0, Percent 50, Percent 100]\<rparr>"
    by (simp add: finalised_sink_def)
  have pair: "(fst finalised_sink, snd finalised_sink) = finalised_sink"
    by simp
  have second: "finalise never_throws finalised_sink =
     Inr (fst finalised_sink,
          world0\<lparr>files := [''out.bam'' \<mapsto> BamFile (Some hdr0) [rec_a],
                            ''out.bam.bai'' \<mapsto> IndexFile],
                 log := [(LogError,
                          ''finalise() called twice on a HtsFile. Ignoring second call.'')],
                 progress := [Percent 0, Percent 50, Percent 100, Percent 0, Percent 100]\<rparr>)"
    using finalise_second_call_ignored[OF first passed, of never_throws]
    unfolding pair
    by (simp add: never_throws_def w1 world0_def)
  have unchanged: "files (snd (final_state (finalise never_throws finalised_sink))) =
     [''out.bam'' \<mapsto> BamFile (Some hdr0) [rec_a], ''out.bam.bai'' \<mapsto> IndexFile]"
    unfolding second by (simp add: final_state_def)
  show ?thesis
    using first second unchanged by simp
qed

text \<open>
  C5 as it is worded fails in two ways. The entry that the second call writes to the log
  has the level of an error, not of a warning. And a first call that was left by an
  exception of \<open>progress_callback(0)\<close> has not set the flag: the object and the world are
  as before, and the next call is not ignored but does the whole work, writing the output
  file and the index.
\<close>

theorem finalise_second_call_warning_counterexample:
  "log (snd (final_state (finalise never_throws finalised_sink))) =
     [(LogError, ''finalise() called twice on a HtsFile. Ignoring second call.'')] \<and>
   LogError \<noteq> LogWarn \<and>
   finalise throws_at_start (sink_one_buffered, world0) =
     Inl (CallbackException (Percent 0), (sink_one_buffered, world0)) \<and>
   finalise never_throws (sink_one_buffered, world0) = Inr finalised_sink \<and>
   files world0 ''out.bam'' = None \<and>
   files (snd finalised_sink) ''out.bam'' = Some (BamFile (Some hdr0) [rec_a])"
proof -
  have fin: "m_finalised (fst finalised_sink)"
    by (simp add: finalised_sink_def)
  have "finalise never_throws (fst finalised_sink, snd finalised_sink) =
     Inr (fst finalised_sink,
          (snd finalised_sink)\<lparr>log := log (snd finalised_sink) @ [(LogError,
                              ''finalise() called twice on a HtsFile. Ignoring second call.'')],
             progress := progress (snd finalised_sink) @ [Percent 0, Percent 100]\<rparr>)"
    using finalise_when_finalised[OF fin, of never_throws "snd finalised_sink"]
    by (simp add: never_throws_def)
  then have lg: "log (snd (final_state (finalise never_throws finalised_sink))) =
     [(LogError, ''finalise() called twice on a HtsFile. Ignoring second call.'')]"
    by (simp add: final_state_def finalised_sink_def world0_def)
  have thrown: "finalise throws_at_start (sink_one_buffered, world0) =
     Inl (CallbackException (Percent 0), (sink_one_buffered, world0))"
    by (rule finalise_first_callback_throws) (simp add: throws_at_start_def)
  show ?thesis
    using lg thrown finalise_sink_one_buffered
    by (simp add: world0_def finalised_sink_def)
qed

section \<open>The poly(A) tail estimator (read\_pipeline/PolyACalculator.cpp)\<close>

text \<open>
  Signal samples (\<open>c10::Half\<close>) and the \<open>float\<close> values computed from them are modelled
  as real numbers and their arithmetic as exact: rounding is not modelled. The signal
  tensor \<open>raw_data\<close> is its accessor \<open>raw_data i\<close> together with its length \<open>raw_size\<close>.
\<close>

record Read =
  read_id :: string
  raw_data :: "nat \<Rightarrow> real"
  raw_size :: nat
  seq :: string
  moves :: "nat list"
  model_stride :: nat
  rna_poly_tail_length :: int

definition kMaxTailLength :: int where
  "kMaxTailLength = 750"

definition FLT_MAX :: real where
  "FLT_MAX = 340282346638528859811704183484516925440"

subsection \<open>The anchor of the tail in direct RNA reads\<close>

text \<open>
  \<open>means\<close> is a \<open>std::array<float, 5>\<close> that is not initialised: what it holds before
  it is written is the parameter \<open>means0\<close> of the model. \<open>check_var\<close> returns the latest
  mean minus the smallest of the five entries (its \<open>max\<close> is computed and not used).
\<close>

definition check_var :: "(nat \<Rightarrow> real) \<Rightarrow> nat \<Rightarrow> real" where
  "check_var means latest =
     (let min_v = foldl (\<lambda>m v. min v m) FLT_MAX (map means [0, 1, 2, 3, 4])
      in means latest - min_v)"

definition kWindow :: nat where
  "kWindow = 50"

text \<open>The threshold \<open>2.2f\<close>, the \<open>float\<close> nearest to 2.2.\<close>

definition kBreakThreshold :: real where
  "kBreakThreshold = 9227469 / 4194304"

definition window_mean :: "(nat \<Rightarrow> real) \<Rightarrow> nat \<Rightarrow> real" where
  "window_mean signal i = sum_list (map signal [i..<i + kWindow]) / real kWindow"

text \<open>
  The loop \<open>for (int i = 3000; i < signal_len / 2; i += kWindow)\<close>; its result is \<open>bp\<close>.
  The test \<open>i >= means.size()\<close> compares \<open>i\<close> with 5. The windows read lie inside the
  signal: \<open>i + 50 \<le> signal_len\<close> whenever \<open>3000 \<le> i < signal_len / 2\<close>.
\<close>

function rna_break_point ::
  "(nat \<Rightarrow> real) \<Rightarrow> nat \<Rightarrow> (nat \<Rightarrow> real) \<Rightarrow> nat \<Rightarrow> nat \<Rightarrow> int" where
  "rna_break_point signal signal_len means n i =
     (if i < signal_len div 2 then
        let mean = window_mean signal i;
            means' = means(n := mean);
            var = check_var means' n
        in if i \<ge> 5 \<and> var > kBreakThreshold then int i
           else rna_break_point signal signal_len means' ((n + 1) mod 5) (i + kWindow)
      else -1)"
  by pat_completeness auto
termination
  by (relation "measure (\<lambda>(signal, signal_len, means, n, i). signal_len div 2 - i)")
     (auto simp: kWindow_def)

declare rna_break_point.simps [simp del]

definition determine_base_anchor_and_strand_rna ::
  "(nat \<Rightarrow> real) \<Rightarrow> Read \<Rightarrow> bool \<times> int \<times> int" where
  "determine_base_anchor_and_strand_rna means0 read =
     (let bp = rna_break_point (raw_data read) (raw_size read) means0 0 3000
      in if bp > 0 then (False, bp, 0) else (False, -1, 0))"

subsection \<open>The signal interval of the tail\<close>

definition kVar :: real where
  "kVar = 35 / 100"

definition calc_stats :: "(nat \<Rightarrow> real) \<Rightarrow> int \<Rightarrow> int \<Rightarrow> real \<times> real" where
  "calc_stats signal s e =
     (let xs = map (\<lambda>i. signal (nat i)) [s..e - 1];
          avg = sum_list xs / real_of_int (e - s);
          var = sum_list (map (\<lambda>x. (x - avg) * (x - avg)) xs) / real_of_int (e - s)
      in (avg, sqrt var))"

text \<open>
  The loop \<open>for (int s = left_end; s < right_end; s += kStride)\<close> that collects the
  intervals of low variance and their statistics.
\<close>

function collect_intervals ::
  "(nat \<Rightarrow> real) \<Rightarrow> int \<Rightarrow> int \<Rightarrow> int \<Rightarrow> (int \<times> int) list \<Rightarrow> (real \<times> real) list \<Rightarrow>
   (int \<times> int) list" where
  "collect_intervals signal kMaxSampleGap right_end s intervals interval_stats =
     (if s < right_end then
        let e = min (s + kMaxSampleGap) right_end;
            (avg, stdev) = calc_stats signal s e
        in if stdev < kVar then
             if length intervals > 1 \<and> snd (last intervals) \<ge> s \<and>
                \<bar>avg - fst (last interval_stats)\<bar> < 2 / 10
             then collect_intervals signal kMaxSampleGap right_end (s + 3)
                    (butlast intervals @ [(fst (last intervals), e)])
                    (interval_stats @ [(avg, stdev)])
             else collect_intervals signal kMaxSampleGap right_end (s + 3)
                    (intervals @ [(s, e)]) (interval_stats @ [(avg, stdev)])
           else collect_intervals signal kMaxSampleGap right_end (s + 3)
                  intervals interval_stats
      else intervals)"
  by pat_completeness auto
termination
  by (relation "measure (\<lambda>(signal, gap, right_end, s, intervals, stats). nat (right_end - s))")
     auto

declare collect_intervals.simps [simp del]

text \<open>
  \<open>std::max_element\<close> with the comparison of interval lengths: the first of the longest
  intervals.
\<close>

fun max_element_by_length :: "(int \<times> int) \<Rightarrow> (int \<times> int) list \<Rightarrow> (int \<times> int)" where
  "max_element_by_length best [] = best"
| "max_element_by_length best (x # xs) =
     max_element_by_length (if snd best - fst best < snd x - fst x then x else best) xs"

text \<open>
  \<open>std::sort\<close> by the distance to the anchor is modelled by the stable \<open>sort_key\<close>;
  intervals at the same distance may come in another order from \<open>std::sort\<close>, which
  can change which of several longest intervals is returned but not its length.
\<close>

definition determine_signal_bounds5 ::
  "int \<Rightarrow> (nat \<Rightarrow> real) \<Rightarrow> nat list \<Rightarrow> bool \<Rightarrow> int \<Rightarrow> bool \<Rightarrow> int \<times> int" where
  "determine_signal_bounds5 signal_anchor signal seq_to_sig_map fwd num_samples_per_base is_rna =
     (let signal_len = int (last seq_to_sig_map);
          kMaxSampleGap = num_samples_per_base * 3;
          kSpread = num_samples_per_base * kMaxTailLength;
          left_end = (if is_rna then max 0 (signal_anchor - 50)
                      else max 0 (signal_anchor - kSpread));
          right_end = min signal_len (signal_anchor + kSpread);
          intervals = collect_intervals signal kMaxSampleGap right_end left_end [] [];
          kAnchorProximity = 25 * num_samples_per_base;
          filtered_intervals =
            (if fwd
             then filter (\<lambda>i. \<bar>signal_anchor - snd i\<bar> < kAnchorProximity \<or>
                               (fst i \<le> signal_anchor \<and> signal_anchor \<le> snd i)) intervals
             else filter (\<lambda>i. \<bar>signal_anchor - fst i\<bar> < kAnchorProximity \<or>
                               (fst i \<le> signal_anchor \<and> signal_anchor \<le> snd i)) intervals)
      in if filtered_intervals = [] then (0, 0)
         else
           let sorted_intervals =
                 (if fwd then sort_key (\<lambda>i. \<bar>snd i - signal_anchor\<bar>) filtered_intervals
                  else sort_key (\<lambda>i. \<bar>fst i - signal_anchor\<bar>) filtered_intervals)
           in max_element_by_length (hd sorted_intervals) (tl sorted_intervals))"

subsection \<open>The worker thread\<close>

text \<open>
  \<open>std::round\<close> rounds halves away from zero.
\<close>

definition std_round :: "real \<Rightarrow> int" where
  "std_round x = (if x \<ge> 0 then \<lfloor>x + 1 / 2\<rfloor> else - \<lfloor>- x + 1 / 2\<rfloor>)"

datatype Message = ReadMsg Read | OtherMsg nat

datatype polya_error = IndexOutOfBounds | FloatToIntUndefined

text \<open>
  Outside the sources, and parameters of the model: \<open>utils::moves_to_map\<close>; the adapter
  alignment of cDNA reads, which \<open>determine_base_anchor_and_strand_cdna\<close> does with the
  edlib library; and the uninitialised content of \<open>means\<close>.
\<close>

record polya_env =
  moves_to_map :: "nat list \<Rightarrow> nat \<Rightarrow> nat \<Rightarrow> nat \<Rightarrow> nat list"
  determine_base_anchor_and_strand_cdna :: "Read \<Rightarrow> bool \<times> int \<times> int"
  means0 :: "nat \<Rightarrow> real"

record PolyACalculator =
  m_is_rna :: bool
  num_reads :: int
  not_called :: int
  polyA :: int
  poly_a_counts :: "int \<Rightarrow> int"
  polya_sink :: "Message list"

text \<open>
  Basic estimate of the samples per base: the quotient of two sizes as a \<open>float\<close>,
  truncated. With an empty sequence the quotient is not finite.
\<close>

definition estimate_samples_per_base :: "Read \<Rightarrow> polya_error + int" where
  "estimate_samples_per_base read =
     (if seq read = [] then Inl FloatToIntUndefined
      else Inr (int (raw_size read div length (seq read))))"

text \<open>
  For RNA the anchor found in the signal is turned into a base index: the index before
  the first entry of the map that is greater than the anchor.
\<close>

fun rna_base_index :: "int \<Rightarrow> nat list \<Rightarrow> nat \<Rightarrow> int" where
  "rna_base_index base_anchor [] i = base_anchor"
| "rna_base_index base_anchor (x # xs) i =
     (if base_anchor < int x then int i - 1 else rna_base_index base_anchor xs (i + 1))"

text \<open>The body of the loop of \<open>worker_thread\<close> for one message.\<close>

definition polya_worker_step ::
  "polya_env \<Rightarrow> PolyACalculator \<Rightarrow> Message \<Rightarrow> polya_error + PolyACalculator" where
  "polya_worker_step env node message =
     (case message of
        OtherMsg m \<Rightarrow> Inr (node\<lparr>polya_sink := polya_sink node @ [OtherMsg m]\<rparr>)
      | ReadMsg read \<Rightarrow>
          let (fwd, base_anchor, trailing_Ts) =
                (if m_is_rna node then determine_base_anchor_and_strand_rna (means0 env) read
                 else determine_base_anchor_and_strand_cdna env read)
          in if base_anchor \<ge> 0 then
               let seq_to_sig_map = moves_to_map env (moves read) (model_stride read)
                                      (raw_size read) (length (seq read) + 1);
                   base_anchor' = (if m_is_rna node then rna_base_index base_anchor seq_to_sig_map 0
                                   else base_anchor)
               in if base_anchor' < 0 \<or> base_anchor' \<ge> int (length seq_to_sig_map)
                  then Inl IndexOutOfBounds
                  else
                    let signal_anchor = int (seq_to_sig_map ! nat base_anchor')
                    in (case estimate_samples_per_base read of
                          Inl e \<Rightarrow> Inl e
                        | Inr num_samples_per_base \<Rightarrow>
                            if num_samples_per_base = 0 then Inl FloatToIntUndefined
                            else
                              let (signal_start, signal_end) =
                                    determine_signal_bounds5 signal_anchor (raw_data read)
                                      seq_to_sig_map fwd num_samples_per_base (m_is_rna node);
                                  num_bases =
                                    std_round (real_of_int (signal_end - signal_start)
                                               / real_of_int num_samples_per_base) - trailing_Ts
                              in if num_bases \<ge> 0 \<and> num_bases < kMaxTailLength
                                 then
                                   Inr (node\<lparr>polyA := polyA node + num_bases,
                                            poly_a_counts := (poly_a_counts node)
                                              (num_bases := poly_a_counts node num_bases + 1),
                                            num_reads := num_reads node + 1,
                                            polya_sink := polya_sink node @
                                              [ReadMsg (read\<lparr>rna_poly_tail_length := num_bases\<rparr>)]\<rparr>)
                                 else
                                   Inr (node\<lparr>not_called := not_called node + 1,
                                            num_reads := num_reads node + 1,
                                            polya_sink := polya_sink node @ [ReadMsg read]\<rparr>))
             else Inr (node\<lparr>not_called := not_called node + 1,
                          num_reads := num_reads node + 1,
                          polya_sink := polya_sink node @ [ReadMsg read]\<rparr>))"

section \<open>The poly(A) node (read\_pipeline/PolyACalculatorNode.cpp)\<close>

text \<open>
  The node looks the calculator up in the context container of the read's client info;
  the read carries it, or carries none. The calculator class is outside the sources: it
  is a record of its three member functions, which look at the data of the read.
  \<open>debug_level\<close> says whether the log level is at most \<open>debug\<close>.
\<close>

record SignalAnchorInfo =
  is_fwd_strand :: bool
  signal_anchor :: int
  trailing_adapter_bases :: int
  split_tail :: bool

record ReadCommon =
  common_read_id :: string
  common_rna_poly_tail_length :: int

record PolyTailCalculator =
  determine_signal_anchor_and_strand :: "ReadCommon \<Rightarrow> SignalAnchorInfo"
  calculate_num_bases :: "ReadCommon \<Rightarrow> SignalAnchorInfo \<Rightarrow> int"
  max_tail_length :: int

record SimplexRead =
  read_common :: ReadCommon
  poly_tail_calculator :: "PolyTailCalculator option"

datatype NodeMessage = SimplexReadMsg SimplexRead | OtherNodeMsg nat

record PolyACalculatorNode =
  num_not_called :: int
  num_called :: int
  total_tail_lengths_called :: int
  tail_length_counts :: "int \<Rightarrow> int"
  node_sink :: "NodeMessage list"

text \<open>
  The tail length computed for a read whose signal anchor was found: the number of bases
  at the anchor, plus, for a split tail, the number of bases at the start of the signal
  when that is positive.
\<close>

definition tail_num_bases :: "PolyTailCalculator \<Rightarrow> ReadCommon \<Rightarrow> SignalAnchorInfo \<Rightarrow> int" where
  "tail_num_bases calculator rc signal_info =
     (let num_bases = calculate_num_bases calculator rc signal_info
      in if split_tail signal_info
         then num_bases +
              max 0 (calculate_num_bases calculator rc
                       \<lparr>is_fwd_strand = is_fwd_strand signal_info, signal_anchor = 0,
                        trailing_adapter_bases = 0, split_tail = split_tail signal_info\<rparr>)
         else num_bases)"

text \<open>The body of the loop of \<open>input_thread_fn\<close> for one message.\<close>

definition input_thread_step ::
  "bool \<Rightarrow> PolyACalculatorNode \<Rightarrow> NodeMessage \<Rightarrow> PolyACalculatorNode" where
  "input_thread_step debug_level node message =
     (case message of
        OtherNodeMsg m \<Rightarrow> node\<lparr>node_sink := node_sink node @ [OtherNodeMsg m]\<rparr>
      | SimplexReadMsg read \<Rightarrow>
          (case poly_tail_calculator read of
             None \<Rightarrow>
               node\<lparr>node_sink := node_sink node @ [SimplexReadMsg read],
                    num_not_called := num_not_called node + 1\<rparr>
           | Some calculator \<Rightarrow>
               let signal_info = determine_signal_anchor_and_strand calculator (read_common read)
               in if signal_anchor signal_info \<ge> 0 then
                    let num_bases = tail_num_bases calculator (read_common read) signal_info
                    in if num_bases > 0 \<and> num_bases < max_tail_length calculator
                       then
                         node\<lparr>total_tail_lengths_called :=
                                total_tail_lengths_called node + num_bases,
                              num_called := num_called node + 1,
                              tail_length_counts :=
                                (if debug_level
                                 then (tail_length_counts node)
                                        (num_bases := tail_length_counts node num_bases + 1)
                                 else tail_length_counts node),
                              node_sink := node_sink node @
                                [SimplexReadMsg (read\<lparr>read_common := (read_common read)
                                   \<lparr>common_rna_poly_tail_length := num_bases\<rparr>\<rparr>)]\<rparr>
                       else
                         node\<lparr>num_not_called := num_not_called node + 1,
                              node_sink := node_sink node @ [SimplexReadMsg read]\<rparr>
                  else
                    node\<lparr>num_not_called := num_not_called node + 1,
                         node_sink := node_sink node @ [SimplexReadMsg read]\<rparr>))"

section \<open>Properties of the poly(A) tail estimation\<close>

subsection \<open>The strand flag of RNA reads\<close>

text \<open>
  An RNA read of 6200 samples, one sample per base: the signal alternates between 1 and
  -1 and rises by 5 from sample 3050 on.
\<close>

definition demo_signal :: "nat \<Rightarrow> real" where
  "demo_signal j = (if even j then 1 else -1) + (if j \<ge> 3050 then 5 else 0)"

definition demo_read :: Read where
  "demo_read = \<lparr>read_id = ''r1'', raw_data = demo_signal, raw_size = 6200,
                seq = replicate 6200 CHR ''A'', moves = replicate 6200 1, model_stride = 1,
                rna_poly_tail_length = -1\<rparr>"

lemma demo_window_mean_3000: "window_mean demo_signal 3000 = 0"
  by (simp add: window_mean_def kWindow_def demo_signal_def)

lemma demo_window_mean_3050: "window_mean demo_signal 3050 = 5"
  by (simp add: window_mean_def kWindow_def demo_signal_def)

lemma demo_break_point: "rna_break_point demo_signal 6200 (\<lambda>_. 0) 0 3000 = 3050"
  apply (subst rna_break_point.simps)
  apply (simp add: demo_window_mean_3000 check_var_def FLT_MAX_def kBreakThreshold_def Let_def kWindow_def)
  apply (subst rna_break_point.simps)
  apply (simp add: demo_window_mean_3050 check_var_def FLT_MAX_def kBreakThreshold_def Let_def kWindow_def)
  done

lemma demo_anchor: "determine_base_anchor_and_strand_rna (\<lambda>_. 0) demo_read = (False, 3050, 0)"
  by (simp add: determine_base_anchor_and_strand_rna_def demo_read_def demo_break_point)

text \<open>
  C7: \<open>determine_base_anchor_and_strand_rna\<close> returns \<open>fwd = false\<close> whether or not a
  break point is found: the result is \<open>(false, bp, 0)\<close> with a positive break point, or
  \<open>(false, -1, 0)\<close>.
\<close>

theorem rna_anchor_fwd_always_false:
  "fst (determine_base_anchor_and_strand_rna initial_means read) = False \<and>
   (determine_base_anchor_and_strand_rna initial_means read =
      (False, rna_break_point (raw_data read) (raw_size read) initial_means 0 3000, 0) \<or>
    determine_base_anchor_and_strand_rna initial_means read = (False, -1, 0))"
  by (simp add: determine_base_anchor_and_strand_rna_def Let_def)

lemma rna_anchor_not_found:
  "determine_base_anchor_and_strand_rna (\<lambda>_. 0) (demo_read\<lparr>raw_size := 0\<rparr>) = (False, -1, 0)"
  by (simp add: determine_base_anchor_and_strand_rna_def rna_break_point.simps)

theorem rna_anchor_fwd_always_false_witness:
  "fst (determine_base_anchor_and_strand_rna (\<lambda>_. 0) demo_read) = False \<and>
   determine_base_anchor_and_strand_rna (\<lambda>_. 0) demo_read = (False, 3050, 0) \<and>
   fst (determine_base_anchor_and_strand_rna (\<lambda>_. 0) (demo_read\<lparr>raw_size := 0\<rparr>)) = False"
  using rna_anchor_fwd_always_false[of "\<lambda>_. 0" demo_read]
        rna_anchor_fwd_always_false[of "\<lambda>_. 0" "demo_read\<lparr>raw_size := 0\<rparr>"] demo_anchor
  by simp

subsection \<open>Which tail lengths are recorded\<close>

text \<open>
  In the node (\<open>PolyACalculatorNode::input_thread_fn\<close>) a computed tail length \<open>n\<close> is
  recorded on the read exactly when \<open>0 < n < max_tail_length\<close>; otherwise the read is
  forwarded as it came and the not-called counter goes up by one.
\<close>

lemma input_thread_records_iff_inside:
  assumes "poly_tail_calculator read = Some calculator"
    and "signal_info = determine_signal_anchor_and_strand calculator (read_common read)"
    and "signal_anchor signal_info \<ge> 0"
    and "n = tail_num_bases calculator (read_common read) signal_info"
    and "node' = input_thread_step debug_level node (SimplexReadMsg read)"
  shows "(0 < n \<and> n < max_tail_length calculator \<longrightarrow>
            node_sink node' = node_sink node @
              [SimplexReadMsg (read\<lparr>read_common := (read_common read)
                                 \<lparr>common_rna_poly_tail_length := n\<rparr>\<rparr>)] \<and>
            num_not_called node' = num_not_called node \<and>
            num_called node' = num_called node + 1) \<and>
         (\<not> (0 < n \<and> n < max_tail_length calculator) \<longrightarrow>
            node_sink node' = node_sink node @ [SimplexReadMsg read] \<and>
            num_not_called node' = num_not_called node + 1 \<and>
            num_called node' = num_called node)"
  using assms by (simp add: input_thread_step_def Let_def)

text \<open>
  The older worker (\<open>PolyACalculator::worker_thread\<close>) tests \<open>num_bases >= 0\<close>. When
  \<open>determine_signal_bounds5\<close> finds no interval of low variance near the anchor it
  returns \<open>{0, 0}\<close>, and the worker records a tail of length 0 for an RNA read instead of
  counting the read as not called. The signal of \<open>demo_read\<close> has no such interval: every
  window of two or three samples has a standard deviation above \<open>kVar\<close>.
\<close>

lemma collect_intervals_none:
  "(\<And>k::nat. s + 3 * int k < right_end \<Longrightarrow>
      \<not> snd (calc_stats signal (s + 3 * int k) (min (s + 3 * int k + gap) right_end)) < kVar) \<Longrightarrow>
   collect_intervals signal gap right_end s intervals interval_stats = intervals"
proof (induction signal gap right_end s intervals interval_stats rule: collect_intervals.induct)
  case (1 signal gap right_end s intervals interval_stats)
  show ?case
  proof (cases "s < right_end")
    case False
    then show ?thesis by (simp add: collect_intervals.simps)
  next
    case True
    have here: "\<not> snd (calc_stats signal s (min (s + gap) right_end)) < kVar"
      using "1.prems"[of 0] True by simp
    have later: "\<And>k::nat. (s + 3) + 3 * int k < right_end \<Longrightarrow>
      \<not> snd (calc_stats signal ((s + 3) + 3 * int k) (min ((s + 3) + 3 * int k + gap) right_end)) < kVar"
    proof -
      fix k :: nat
      assume "(s + 3) + 3 * int k < right_end"
      then show "\<not> snd (calc_stats signal ((s + 3) + 3 * int k) (min ((s + 3) + 3 * int k + gap) right_end)) < kVar"
        using "1.prems"[of "Suc k"] by (simp add: algebra_simps)
    qed
    obtain avg stdev where cs: "calc_stats signal s (min (s + gap) right_end) = (avg, stdev)"
      by (cases "calc_stats signal s (min (s + gap) right_end)") auto
    have nlt: "\<not> stdev < kVar" using here cs by simp
    have "collect_intervals signal gap right_end (s + 3) intervals interval_stats = intervals"
      using "1.IH"(3)[OF True refl refl cs[symmetric] nlt] later by simp
    then show ?thesis
      using True cs nlt by (subst collect_intervals.simps) (simp add: Let_def)
  qed
qed


lemma calc_stats_two:
  "calc_stats f (int j) (int j + 2) =
     ((f j + f (j + 1)) / 2,
      sqrt (((f j - (f j + f (j + 1)) / 2) * (f j - (f j + f (j + 1)) / 2) +
             (f (j + 1) - (f j + f (j + 1)) / 2) * (f (j + 1) - (f j + f (j + 1)) / 2)) / 2))"
proof -
  have u: "[int j..int j + 2 - 1] = [int j, int j + 1]"
    by (simp add: upto_rec1)
  show ?thesis
    unfolding calc_stats_def u by (simp add: Let_def nat_add_distrib)
qed

lemma calc_stats_three:
  "calc_stats f (int j) (int j + 3) =
     ((f j + f (j + 1) + f (j + 2)) / 3,
      sqrt (((f j - (f j + f (j + 1) + f (j + 2)) / 3) * (f j - (f j + f (j + 1) + f (j + 2)) / 3) +
             (f (j + 1) - (f j + f (j + 1) + f (j + 2)) / 3) * (f (j + 1) - (f j + f (j + 1) + f (j + 2)) / 3) +
             (f (j + 2) - (f j + f (j + 1) + f (j + 2)) / 3) * (f (j + 2) - (f j + f (j + 1) + f (j + 2)) / 3)) / 3))"
proof -
  have u: "[int j..int j + 3 - 1] = [int j, int j + 1, int j + 2]"
    by (simp add: upto_rec1)
  show ?thesis
    unfolding calc_stats_def u by (simp add: Let_def nat_add_distrib add.assoc)
qed

lemma demo_signal_values:
  "j + 2 < 3050 \<or> 3050 \<le> j \<or> j = 3048 \<or> j = 3049"
  for j :: nat
  by arith

lemma stdev_not_below: "kVar * kVar \<le> v \<Longrightarrow> \<not> sqrt v < kVar"
proof -
  assume a: "kVar * kVar \<le> v"
  have "kVar\<^sup>2 \<le> v" using a by (simp add: power2_eq_square)
  then have "kVar \<le> sqrt v" by (rule real_le_rsqrt)
  then show ?thesis by simp
qed

lemma demo_window_two:
  "\<not> snd (calc_stats demo_signal (int j) (int j + 2)) < kVar"
  unfolding calc_stats_two snd_conv
  by (rule stdev_not_below, cases "even j")
     (use demo_signal_values[of j] in \<open>auto simp: demo_signal_def kVar_def\<close>)

lemma demo_window_three:
  "\<not> snd (calc_stats demo_signal (int j) (int j + 3)) < kVar"
  unfolding calc_stats_three snd_conv
  by (rule stdev_not_below, cases "even j")
     (use demo_signal_values[of j] in \<open>auto simp: demo_signal_def kVar_def\<close>)


text \<open>
  The same holds around every anchor: no window of the search range has a standard
  deviation below \<open>kVar\<close>.
\<close>

lemma demo_no_intervals_at:
  assumes "50 \<le> a"
  shows "collect_intervals demo_signal 3 (int a + 750) (int a - 50) [] [] = []"
proof (rule collect_intervals_none)
  fix k :: nat
  assume lt: "int a - 50 + 3 * int k < int a + 750"
  have s: "int a - 50 + 3 * int k = int (a - 50 + 3 * k)"
    using assms by simp
  show "\<not> snd (calc_stats demo_signal (int a - 50 + 3 * int k)
              (min (int a - 50 + 3 * int k + 3) (int a + 750))) < kVar"
  proof (cases "int a - 50 + 3 * int k + 3 \<le> int a + 750")
    case True
    then have "min (int a - 50 + 3 * int k + 3) (int a + 750) = int (a - 50 + 3 * k) + 3"
      using assms by simp
    then show ?thesis
      unfolding s using demo_window_three[of "a - 50 + 3 * k"] by simp
  next
    case False
    then have "k = 266" using lt by arith
    then have "min (int a - 50 + 3 * int k + 3) (int a + 750) = int (a - 50 + 3 * k) + 2"
      using assms by simp
    then show ?thesis
      unfolding s using demo_window_two[of "a - 50 + 3 * k"] by simp
  qed
qed

definition demo_map :: "nat list" where
  "demo_map = [0..<6200] @ [6200]"

lemma demo_bounds_at:
  assumes "50 \<le> a" and "a + 750 \<le> 6200"
  shows "determine_signal_bounds5 (int a) demo_signal demo_map False 1 True = (0, 0)"
proof -
  have l: "max 0 (int a - 50) = int a - 50" using assms by simp
  have r: "min 6200 (int a + 750) = int a + 750" using assms by simp
  show ?thesis
    using demo_no_intervals_at[OF assms(1)]
    by (simp add: determine_signal_bounds5_def demo_map_def kMaxTailLength_def l r)
qed

text \<open>
  The array \<open>means\<close> of \<open>determine_base_anchor_and_strand_rna\<close> is not initialised.
  Whatever finite values it holds, the break point of \<open>demo_read\<close> is 3000 or 3050: at 3000 the window
  mean is 0 and at 3050 it is 5, while the minimum of the array is at most the 0 just
  stored in it.
\<close>

lemma demo_break_point_cases:
  "rna_break_point demo_signal 6200 initial_means 0 3000 = 3000 \<or>
   rna_break_point demo_signal 6200 initial_means 0 3000 = 3050"
proof -
  let ?m1 = "initial_means(0 := 0)"
  let ?m2 = "?m1(1 := 5)"
  have second: "check_var ?m2 1 > kBreakThreshold"
    by (simp add: check_var_def FLT_MAX_def kBreakThreshold_def Let_def min_def)
  have step2: "rna_break_point demo_signal 6200 ?m1 1 3050 = 3050"
    apply (subst rna_break_point.simps)
    using second by (simp add: demo_window_mean_3050 Let_def)
  show ?thesis
    apply (subst (1 2) rna_break_point.simps)
    using step2 by (simp add: demo_window_mean_3000 Let_def kWindow_def)
qed

lemma demo_anchor_cases:
  "determine_base_anchor_and_strand_rna initial_means demo_read = (False, 3000, 0) \<or>
   determine_base_anchor_and_strand_rna initial_means demo_read = (False, 3050, 0)"
  using demo_break_point_cases[of initial_means]
  by (auto simp: determine_base_anchor_and_strand_rna_def demo_read_def)

lemma rna_base_index_upt:
  "i \<le> b + 1 \<Longrightarrow> b + 1 < n \<Longrightarrow> rna_base_index (int b) ([i..<n] @ rest) i = int b"
proof (induction "b + 1 - i" arbitrary: i)
  case 0
  then have i: "i = b + 1" by simp
  have "[i..<n] = i # [Suc i..<n]" using 0 by (simp add: upt_conv_Cons)
  then show ?case using i by simp
next
  case (Suc d)
  then have lt: "i < n" and le: "i \<le> b" by auto
  have u: "[i..<n] = i # [Suc i..<n]" using lt by (simp add: upt_conv_Cons)
  have "rna_base_index (int b) ([Suc i..<n] @ rest) (Suc i) = int b"
    using Suc by (intro Suc.hyps(1)) auto
  then show ?case using le u by simp
qed

lemma demo_base_index_at:
  "a + 1 < 6200 \<Longrightarrow> rna_base_index (int a) demo_map 0 = int a"
  using rna_base_index_upt[of 0 a 6200 "[6200]"] by (simp add: demo_map_def)

lemma demo_map_nth_at: "a < 6200 \<Longrightarrow> demo_map ! a = a"
  by (simp add: demo_map_def nth_append)

lemma demo_map_length: "length demo_map = 6201"
  by (simp add: demo_map_def)

definition demo_env :: "(nat \<Rightarrow> real) \<Rightarrow> polya_env" where
  "demo_env initial_means =
     \<lparr>moves_to_map = (\<lambda>moves stride signal_len reserve. demo_map),
      determine_base_anchor_and_strand_cdna = (\<lambda>read. (False, -1, 0)),
      means0 = initial_means\<rparr>"

definition demo_node :: PolyACalculator where
  "demo_node = \<lparr>m_is_rna = True, num_reads = 0, not_called = 0, polyA = 0,
                poly_a_counts = (\<lambda>_. 0), polya_sink = []\<rparr>"

text \<open>
  C6 at the older worker: for \<open>demo_read\<close> the computed tail length is 0, which is not
  strictly inside \<open>(0, 750)\<close>; the read is forwarded with \<open>rna_poly_tail_length = 0\<close>, the
  histogram entry for 0 goes up and \<open>not_called\<close> stays 0. This holds for all finite
  values that the uninitialised array \<open>means\<close> may hold, which are the values of the model.
\<close>

theorem polya_worker_records_zero_tail:
  "polya_worker_step (demo_env initial_means) demo_node (ReadMsg demo_read) =
     Inr (demo_node\<lparr>poly_a_counts := (\<lambda>_. 0)(0 := 1), num_reads := 1,
                    polya_sink := [ReadMsg (demo_read\<lparr>rna_poly_tail_length := 0\<rparr>)]\<rparr>) \<and>
   not_called demo_node = 0 \<and> rna_poly_tail_length demo_read = -1"
proof -
  have at: "polya_worker_step (demo_env initial_means) demo_node (ReadMsg demo_read) =
     Inr (demo_node\<lparr>poly_a_counts := (\<lambda>_. 0)(0 := 1), num_reads := 1,
                    polya_sink := [ReadMsg (demo_read\<lparr>rna_poly_tail_length := 0\<rparr>)]\<rparr>)"
    if anchor: "determine_base_anchor_and_strand_rna initial_means demo_read = (False, int a, 0)"
      and a: "a = 3000 \<or> a = 3050" for a :: nat
  proof -
    have bounds: "determine_signal_bounds5 (int a) demo_signal demo_map False 1 True = (0, 0)"
      using a by (intro demo_bounds_at) auto
    have idx: "rna_base_index (int a) demo_map 0 = int a"
      using a by (intro demo_base_index_at) auto
    have nth: "demo_map ! a = a"
      using a by (intro demo_map_nth_at) auto
    have small: "\<not> 6201 \<le> a"
      using a by auto
    show ?thesis
      by (simp add: small polya_worker_step_def demo_env_def demo_node_def anchor idx nth
          demo_map_length estimate_samples_per_base_def bounds std_round_def kMaxTailLength_def
          demo_read_def[THEN arg_cong, of raw_size] demo_read_def[THEN arg_cong, of seq]
          demo_read_def[THEN arg_cong, of raw_data]
          demo_read_def[THEN arg_cong, of rna_poly_tail_length])
  qed
  have "polya_worker_step (demo_env initial_means) demo_node (ReadMsg demo_read) =
     Inr (demo_node\<lparr>poly_a_counts := (\<lambda>_. 0)(0 := 1), num_reads := 1,
                    polya_sink := [ReadMsg (demo_read\<lparr>rna_poly_tail_length := 0\<rparr>)]\<rparr>)"
    using demo_anchor_cases[of initial_means] at[of 3000] at[of 3050] by auto
  then show ?thesis
    by (simp add: demo_node_def demo_read_def)
qed

section \<open>The modified-base caller node (read\_pipeline/ModBaseCallerNode.cpp)\<close>

text \<open>
  The runner returns a two-dimensional tensor of probabilities, which the worker views as
  one row of \<open>size(0) * size(1)\<close> values. The tensor is its two sizes and the accessor of
  the flat view. The runner class and \<open>div_round_closest\<close> are outside the sources and are
  parameters of the model. A probability is a \<open>float\<close>, modelled as the real number it
  is: multiplying by 256, \<open>std::floor\<close> and \<open>std::min\<close> are exact on floats.
\<close>

record Tensor2 =
  size0 :: nat
  size1 :: nat
  flat :: "nat \<Rightarrow> real"

record Chunk =
  raw_chunk_size :: nat
  chunk_moves :: "nat list"

record ModRead =
  mod_read_id :: string
  mod_raw_data :: "nat \<Rightarrow> real"
  mod_seq :: string
  mod_moves :: "nat list"
  called_chunks :: "Chunk list"
  base_mod_probs :: "8 word list"
  base_mod_info :: string

record RemoraRunner =
  run :: "(nat \<Rightarrow> real) \<Rightarrow> string \<Rightarrow> nat list \<Rightarrow> nat \<Rightarrow> Tensor2"
  runner_base_mod_info :: string
  div_round_closest :: "nat \<Rightarrow> nat \<Rightarrow> nat"

datatype modbase_error = NoCalledChunks | ProbabilityNotRepresentable

text \<open>
  \<open>uint8_t(std::min(std::floor(p * 256), 255.0f))\<close>. Converting a negative value to an
  unsigned type is undefined: \<open>None\<close>.
\<close>

definition prob_to_byte :: "real \<Rightarrow> 8 word option" where
  "prob_to_byte p =
     (let v = min (real_of_int \<lfloor>p * 256\<rfloor>) 255
      in if v < 0 then None else Some (word_of_int \<lfloor>v\<rfloor>))"

text \<open>The loop over the positions of \<open>read->base_mod_probs\<close>.\<close>

fun convert_probs :: "(nat \<Rightarrow> real) \<Rightarrow> nat list \<Rightarrow> modbase_error + 8 word list" where
  "convert_probs results_view [] = Inr []"
| "convert_probs results_view (i # is) =
     (case prob_to_byte (results_view i) of
        None \<Rightarrow> Inl ProbabilityNotRepresentable
      | Some b \<Rightarrow>
          (case convert_probs results_view is of
             Inl e \<Rightarrow> Inl e
           | Inr bs \<Rightarrow> Inr (b # bs)))"

text \<open>
  One round of the loop of \<open>worker_thread\<close>, for the read taken from the queue; the read
  is pushed to the sink. \<open>called_chunks[0]\<close> of a read without chunks does not exist.
\<close>

definition modbase_worker_step ::
  "RemoraRunner \<Rightarrow> ModRead list \<Rightarrow> ModRead \<Rightarrow> modbase_error + ModRead list" where
  "modbase_worker_step m_model_runner m_sink read =
     (case called_chunks read of
        [] \<Rightarrow> Inl NoCalledChunks
      | chunk # chunks \<Rightarrow>
          let block_stride = div_round_closest m_model_runner (raw_chunk_size chunk)
                               (length (chunk_moves chunk));
              base_mod_probs_t = run m_model_runner (mod_raw_data read) (mod_seq read)
                                   (mod_moves read) block_stride;
              n = size0 base_mod_probs_t * size1 base_mod_probs_t
          in (case convert_probs (flat base_mod_probs_t) [0..<n] of
                Inl e \<Rightarrow> Inl e
              | Inr bytes \<Rightarrow>
                  Inr (m_sink @ [read\<lparr>base_mod_probs := bytes,
                                       base_mod_info := runner_base_mod_info m_model_runner\<rparr>])))"

definition demo_runner :: RemoraRunner where
  "demo_runner = \<lparr>run = (\<lambda>signal sequence moves block_stride.
                           \<lparr>size0 = 1, size1 = 3,
                            flat = (\<lambda>i. if i = 0 then 0 else if i = 1 then 1 / 2 else 1)\<rparr>),
                  runner_base_mod_info = ''C+m'',
                  div_round_closest = (\<lambda>n d. (n + d div 2) div d)\<rparr>"

definition demo_mod_read :: ModRead where
  "demo_mod_read = \<lparr>mod_read_id = ''r1'', mod_raw_data = (\<lambda>_. 0), mod_seq = ''ACG'',
                    mod_moves = [1, 0, 1, 0, 1, 0],
                    called_chunks = [\<lparr>raw_chunk_size = 6, chunk_moves = [1, 0, 1, 0, 1, 0]\<rparr>],
                    base_mod_probs = [], base_mod_info = []\<rparr>"

section \<open>Properties of the modified-base caller node\<close>

lemma prob_to_byte_nonneg:
  assumes "0 \<le> p"
  shows "\<exists>b. prob_to_byte p = Some b \<and> uint b = min \<lfloor>p * 256\<rfloor> 255"
proof -
  have f: "0 \<le> \<lfloor>p * 256\<rfloor>" using assms by simp
  let ?v = "min \<lfloor>p * 256\<rfloor> 255"
  have v: "min (real_of_int \<lfloor>p * 256\<rfloor>) 255 = real_of_int ?v" by simp
  have range: "0 \<le> ?v" "?v < 256" using f by auto
  have "uint (word_of_int ?v :: 8 word) = ?v"
    using range by (simp add: uint_word_of_int take_bit_int_eq_self)
  moreover have "\<not> real_of_int ?v < 0"
    using range(1) by linarith
  ultimately show ?thesis
    unfolding prob_to_byte_def v Let_def by (simp only: if_False floor_of_int) simp
qed

lemma prob_to_byte_one: "prob_to_byte 1 = Some 255"
  by (simp add: prob_to_byte_def)

lemma prob_to_byte_half: "prob_to_byte (1/2) = Some 128"
  by (simp add: prob_to_byte_def)

lemma convert_probs_ok:
  assumes "\<forall>i \<in> set is. 0 \<le> results_view i"
  shows "\<exists>bytes. convert_probs results_view is = Inr bytes \<and> length bytes = length is \<and>
           (\<forall>k < length is. uint (bytes ! k) = min \<lfloor>results_view (is ! k) * 256\<rfloor> 255)"
  using assms
proof (induction "is")
  case Nil
  then show ?case by simp
next
  case (Cons i "is")
  obtain b where b: "prob_to_byte (results_view i) = Some b"
      "uint b = min \<lfloor>results_view i * 256\<rfloor> 255"
    using prob_to_byte_nonneg[of "results_view i"] Cons.prems by auto
  obtain bs where bs: "convert_probs results_view is = Inr bs" "length bs = length is"
      "\<forall>k < length is. uint (bs ! k) = min \<lfloor>results_view (is ! k) * 256\<rfloor> 255"
    using Cons by auto
  have "\<forall>k < length (i # is). uint ((b # bs) ! k) = min \<lfloor>results_view ((i # is) ! k) * 256\<rfloor> 255"
    using b(2) bs(3) by (auto simp: nth_Cons split: nat.splits)
  then show ?case using b(1) bs(1,2) by simp
qed

lemma upt_3: "[0..<3] = [0, 1, 2]"
  by (simp add: upt_rec)

lemma demo_modbase_step:
  "modbase_worker_step demo_runner [] demo_mod_read =
     Inr [demo_mod_read\<lparr>base_mod_probs := [0, 128, 255], base_mod_info := ''C+m''\<rparr>]"
  by (simp add: modbase_worker_step_def demo_runner_def demo_mod_read_def upt_3 prob_to_byte_def)

text \<open>
  C8: for a read whose probabilities are not negative, the worker stores at every position
  \<open>i\<close> the byte \<open>min(floor(p_i * 256), 255)\<close>: a value from 0 to 255, and 255 for the
  probability 1.
\<close>

theorem modbase_probs_are_clamped_bytes:
  assumes chunks: "called_chunks read = chunk # chunks"
    and t: "t = run m_model_runner (mod_raw_data read) (mod_seq read) (mod_moves read)
                 (div_round_closest m_model_runner (raw_chunk_size chunk)
                    (length (chunk_moves chunk)))"
    and probs: "\<forall>i < size0 t * size1 t. 0 \<le> flat t i"
  shows "\<exists>bytes.
     modbase_worker_step m_model_runner m_sink read =
       Inr (m_sink @ [read\<lparr>base_mod_probs := bytes,
                            base_mod_info := runner_base_mod_info m_model_runner\<rparr>]) \<and>
     length bytes = size0 t * size1 t \<and>
     (\<forall>i < size0 t * size1 t.
        uint (bytes ! i) = min \<lfloor>flat t i * 256\<rfloor> 255 \<and>
        0 \<le> uint (bytes ! i) \<and> uint (bytes ! i) \<le> 255 \<and>
        (flat t i = 1 \<longrightarrow> bytes ! i = 255))"
proof -
  let ?n = "size0 t * size1 t"
  have "\<forall>i \<in> set [0..<?n]. 0 \<le> flat t i"
    using probs by simp
  then obtain bytes where conv: "convert_probs (flat t) [0..<?n] = Inr bytes"
    and len: "length bytes = ?n"
    and vals: "\<forall>k < ?n. uint (bytes ! k) = min \<lfloor>flat t k * 256\<rfloor> 255"
    using convert_probs_ok[of "[0..<?n]" "flat t"] by auto
  have step: "modbase_worker_step m_model_runner m_sink read =
       Inr (m_sink @ [read\<lparr>base_mod_probs := bytes,
                            base_mod_info := runner_base_mod_info m_model_runner\<rparr>])"
    using chunks conv t by (simp add: modbase_worker_step_def Let_def)
  have "uint (bytes ! i) = min \<lfloor>flat t i * 256\<rfloor> 255 \<and>
        0 \<le> uint (bytes ! i) \<and> uint (bytes ! i) \<le> 255 \<and>
        (flat t i = 1 \<longrightarrow> bytes ! i = 255)" if i: "i < ?n" for i
  proof -
    have u: "uint (bytes ! i) = min \<lfloor>flat t i * 256\<rfloor> 255"
      using vals i by simp
    have one: "bytes ! i = 255" if "flat t i = 1"
    proof -
      have "uint (bytes ! i) = uint (255 :: 8 word)" using u that by simp
      then show ?thesis by (simp only: word_uint_eq_iff)
    qed
    have "0 \<le> flat t i" using probs i by simp
    then have "0 \<le> \<lfloor>flat t i * 256\<rfloor>" by simp
    then show ?thesis using u one by simp
  qed
  then show ?thesis using step len by blast
qed

theorem modbase_probs_are_clamped_bytes_witness:
  "called_chunks demo_mod_read = [\<lparr>raw_chunk_size = 6, chunk_moves = [1, 0, 1, 0, 1, 0]\<rparr>] \<and>
   (0::real) \<le> 0 \<and> (0::real) \<le> 1 / 2 \<and> (0::real) \<le> 1 \<and>
   (\<exists>bytes.
     modbase_worker_step demo_runner [] demo_mod_read =
       Inr ([] @ [demo_mod_read\<lparr>base_mod_probs := bytes, base_mod_info := ''C+m''\<rparr>]) \<and>
     length bytes = 3 \<and>
     bytes ! 0 = 0 \<and> uint (bytes ! 1) = 128 \<and> bytes ! 2 = 255)"
proof -
  let ?t = "\<lparr>size0 = 1, size1 = 3,
             flat = (\<lambda>i::nat. if i = 0 then 0 else if i = 1 then 1 / 2 else (1::real))\<rparr>"
  have c: "called_chunks demo_mod_read =
             \<lparr>raw_chunk_size = 6, chunk_moves = [1, 0, 1, 0, 1, 0]\<rparr> # []"
    by (simp add: demo_mod_read_def)
  have t: "?t = run demo_runner (mod_raw_data demo_mod_read) (mod_seq demo_mod_read)
                  (mod_moves demo_mod_read)
                  (div_round_closest demo_runner
                     (raw_chunk_size \<lparr>raw_chunk_size = 6, chunk_moves = [1, 0, 1, 0, 1, 0]\<rparr>)
                     (length (chunk_moves \<lparr>raw_chunk_size = 6, chunk_moves = [1, 0, 1, 0, 1, 0]\<rparr>)))"
    by (simp add: demo_runner_def)
  have p: "\<forall>i < size0 ?t * size1 ?t. 0 \<le> flat ?t i"
    by simp
  obtain bytes where
    step: "modbase_worker_step demo_runner [] demo_mod_read =
       Inr ([] @ [demo_mod_read\<lparr>base_mod_probs := bytes,
                            base_mod_info := runner_base_mod_info demo_runner\<rparr>])"
    and len: "length bytes = size0 ?t * size1 ?t"
    and vals: "\<forall>i < size0 ?t * size1 ?t.
        uint (bytes ! i) = min \<lfloor>flat ?t i * 256\<rfloor> 255 \<and>
        0 \<le> uint (bytes ! i) \<and> uint (bytes ! i) \<le> 255 \<and>
        (flat ?t i = 1 \<longrightarrow> bytes ! i = 255)"
    using modbase_probs_are_clamped_bytes[OF c t p, of "[]"] by blast
  have "uint (bytes ! 0) = 0" using vals by simp
  then have b0: "bytes ! 0 = 0" by (simp add: word_uint_eq_iff)
  have b1: "uint (bytes ! 1) = 128" using vals by simp
  have b2: "bytes ! 2 = 255" using vals by simp
  have "\<exists>bytes.
     modbase_worker_step demo_runner [] demo_mod_read =
       Inr ([] @ [demo_mod_read\<lparr>base_mod_probs := bytes, base_mod_info := ''C+m''\<rparr>]) \<and>
     length bytes = 3 \<and>
     bytes ! 0 = 0 \<and> uint (bytes ! 1) = 128 \<and> bytes ! 2 = 255"
    using step len b0 b1 b2 by (intro exI[of _ bytes]) (simp add: demo_runner_def)
  then show ?thesis
    using c by simp
qed

section \<open>The correction node (read\_pipeline/CorrectionNode.cpp)\<close>

text \<open>
  C++ \<open>int\<close> values are modelled as unbounded integers; division and remainder truncate
  towards zero (\<open>sdiv\<close>, \<open>smod\<close>). An access outside a vector is undefined behaviour in
  the source and an error value here.
\<close>

datatype CigarOpType = MATCH | MISMATCH | INS | DEL | OTHER_OP

record CigarOp =
  op :: CigarOpType
  len :: nat

record Overlap =
  ov_qstart :: int
  ov_qend :: int
  ov_qlen :: int
  ov_tstart :: int
  ov_tend :: int
  ov_tlen :: int
  ov_fwd :: bool

record CorrectionAlignments =
  read_name :: string
  read_seq :: string
  qnames :: "string list"
  seqs :: "string list"
  overlaps :: "Overlap list"
  cigars :: "CigarOp list list"

record OverlapWindow =
  overlap_idx :: nat
  tstart :: int
  qstart :: int
  qend :: int
  cigar_start_idx :: int
  cigar_start_offset :: int
  cigar_end_idx :: int
  cigar_end_offset :: int
  accuracy :: real

datatype correction_error =
    MaxInsIndexOutOfBounds int
  | CigarIndexOutOfBounds int
  | AlignmentIndexOutOfBounds nat
  | WindowIndexOutOfBounds int
  | NegativeVectorLength int
  | DivisionByZero
  | SubstrOutOfRange int
  | StringIndexOutOfBounds int
  | AccuracyNotFinite
  | OverlapWindowIndexOutOfBounds nat nat

definition TOP_K :: int where
  "TOP_K = 30"

subsection \<open>filter\_overlap\<close>

text \<open>
  The loop runs over \<open>size_t i\<close> from \<open>cigar_start_idx\<close> up to, not including,
  \<open>min(size_t(cigar_end_idx + 1), cigar.size())\<close>; both bounds are converted to
  \<open>size_t\<close>.
\<close>

definition filter_overlap :: "OverlapWindow \<Rightarrow> CorrectionAlignments \<Rightarrow> correction_error + bool" where
  "filter_overlap overlap alignments =
     (if overlap_idx overlap \<ge> length (cigars alignments)
      then Inl (AlignmentIndexOutOfBounds (overlap_idx overlap))
      else
        let cigar = cigars alignments ! overlap_idx overlap;
            upper = min (size_t_of (cigar_end_idx overlap + 1)) (length cigar)
        in Inr (foldl (\<lambda>long_indel i.
                         if op (cigar ! i) = INS \<or> op (cigar ! i) = DEL
                         then long_indel \<or> len (cigar ! i) \<ge> 30
                         else long_indel)
                  False [size_t_of (cigar_start_idx overlap)..<upper]))"

subsection \<open>calculate\_accuracy\<close>

text \<open>
  \<open>std::string::substr(first, n)\<close>: both arguments arrive as \<open>size_t\<close>; the call throws
  \<open>std::out_of_range\<close> when \<open>first\<close> lies beyond the end, and \<open>n\<close> is cut at the end.
\<close>

definition substr :: "string \<Rightarrow> int \<Rightarrow> int \<Rightarrow> correction_error + string" where
  "substr str first n =
     (if size_t_of first > length str then Inl (SubstrOutOfRange first)
      else Inr (take (size_t_of n) (drop (size_t_of first) str)))"

text \<open>
  \<open>str[i]\<close> of a \<open>std::string\<close>: the position one past the last character holds the null
  character; a position further out is undefined behaviour.
\<close>

definition string_at :: "string \<Rightarrow> int \<Rightarrow> correction_error + char" where
  "string_at str i =
     (if size_t_of i > length str then Inl (StringIndexOutOfBounds i)
      else if size_t_of i = length str then Inr (CHR 0x00)
      else Inr (str ! size_t_of i))"

definition cigar_at :: "CigarOp list \<Rightarrow> int \<Rightarrow> correction_error + CigarOp" where
  "cigar_at cigar idx =
     (if idx < 0 \<or> idx \<ge> int (length cigar) then Inl (CigarIndexOutOfBounds idx)
      else Inr (cigar ! nat idx))"

text \<open>
  The counters of \<open>calculate_accuracy\<close>: the positions in the two subsequences and the
  numbers of matches, substitutions, inserted and deleted bases.
\<close>

record accuracy_counts =
  acc_tpos :: int
  acc_qpos :: int
  acc_m :: int
  acc_s :: int
  acc_i :: int
  acc_d :: int

text \<open>The loop \<open>for (int j = 0; j < len; j++)\<close> of a match, over the values of \<open>j\<close>.\<close>

fun count_matches ::
  "string \<Rightarrow> string \<Rightarrow> int list \<Rightarrow> accuracy_counts \<Rightarrow> correction_error + accuracy_counts" where
  "count_matches tseq qseq [] st = Inr st"
| "count_matches tseq qseq (j # js) st =
     (case string_at tseq (acc_tpos st + j) of
        Inl e \<Rightarrow> Inl e
      | Inr tbase \<Rightarrow>
          (case string_at qseq (acc_qpos st + j) of
             Inl e \<Rightarrow> Inl e
           | Inr qbase \<Rightarrow>
               count_matches tseq qseq js
                 (if tbase = qbase then st\<lparr>acc_m := acc_m st + 1\<rparr>
                  else st\<lparr>acc_s := acc_s st + 1\<rparr>)))"

definition match_positions :: "int \<Rightarrow> int list" where
  "match_positions n = [0..n - 1]"

text \<open>
  The length that the operation \<open>idx\<close> contributes to the window, with the accesses to
  \<open>cigar[idx]\<close> that computing it makes.
\<close>

definition bracket_len :: "OverlapWindow \<Rightarrow> CigarOp list \<Rightarrow> int \<Rightarrow> correction_error + int" where
  "bracket_len overlap cigar idx =
     (if cigar_start_idx overlap = cigar_end_idx overlap
      then Inr (cigar_end_offset overlap - cigar_start_offset overlap)
      else if idx = cigar_start_idx overlap
      then (case cigar_at cigar idx of
              Inl e \<Rightarrow> Inl e
            | Inr c \<Rightarrow> Inr (int (len c) - cigar_start_offset overlap))
      else if idx = cigar_end_idx overlap
      then Inr (cigar_end_offset overlap)
      else (case cigar_at cigar idx of
              Inl e \<Rightarrow> Inl e
            | Inr c \<Rightarrow> Inr (int (len c))))"

text \<open>
  The loop over the operations \<open>cigar_start_idx, ..., cigar_end_idx\<close>; a length of 0 ends
  it.
\<close>

fun accuracy_cigar_loop ::
  "OverlapWindow \<Rightarrow> CigarOp list \<Rightarrow> string \<Rightarrow> string \<Rightarrow> int list \<Rightarrow> accuracy_counts \<Rightarrow>
   correction_error + accuracy_counts" where
  "accuracy_cigar_loop overlap cigar tseq qseq [] st = Inr st"
| "accuracy_cigar_loop overlap cigar tseq qseq (idx # idxs) st =
     (case bracket_len overlap cigar idx of
        Inl e \<Rightarrow> Inl e
      | Inr n \<Rightarrow>
          if n = 0 then Inr st
          else
            (case cigar_at cigar idx of
               Inl e \<Rightarrow> Inl e
             | Inr c \<Rightarrow>
                 if op c = MATCH then
                   (case count_matches tseq qseq (match_positions n) st of
                      Inl e \<Rightarrow> Inl e
                    | Inr st' \<Rightarrow>
                        accuracy_cigar_loop overlap cigar tseq qseq idxs
                          (st'\<lparr>acc_tpos := acc_tpos st' + n, acc_qpos := acc_qpos st' + n\<rparr>))
                 else if op c = INS then
                   accuracy_cigar_loop overlap cigar tseq qseq idxs
                     (st\<lparr>acc_i := acc_i st + n, acc_qpos := acc_qpos st + n\<rparr>)
                 else if op c = DEL then
                   accuracy_cigar_loop overlap cigar tseq qseq idxs
                     (st\<lparr>acc_d := acc_d st + n, acc_tpos := acc_tpos st + n\<rparr>)
                 else accuracy_cigar_loop overlap cigar tseq qseq idxs st))"

text \<open>
  \<open>calculate_accuracy\<close> sets the accuracy of the overlap window. \<open>utils::reverse_complement\<close>
  is outside the sources and a parameter of the model. The accuracy is the quotient of two
  integers in \<open>float\<close> arithmetic and modelled as a real number; when the four counters
  add up to 0 the quotient is not a finite number, which the model reports as an error
  value.
\<close>

definition calculate_accuracy ::
  "(string \<Rightarrow> string) \<Rightarrow> OverlapWindow \<Rightarrow> CorrectionAlignments \<Rightarrow> nat \<Rightarrow> int \<Rightarrow> int \<Rightarrow>
   correction_error + OverlapWindow" where
  "calculate_accuracy reverse_complement overlap alignments win_idx win_len m_window_size =
     (let t_start = tstart overlap;
          t_end = int win_idx * m_window_size + win_len;
          idx = overlap_idx overlap
      in if idx \<ge> length (overlaps alignments) then Inl (AlignmentIndexOutOfBounds idx)
         else
           let oqstart = ov_qstart (overlaps alignments ! idx);
               oqend = ov_qend (overlaps alignments ! idx);
               fwd = ov_fwd (overlaps alignments ! idx);
               q_start = (if fwd then oqstart + qstart overlap else oqend - qend overlap);
               q_end = (if fwd then oqstart + qend overlap else oqend - qstart overlap);
               qlen = q_end - q_start
           in (case substr (read_seq alignments) t_start (t_end - t_start) of
                 Inl e \<Rightarrow> Inl e
               | Inr tseq \<Rightarrow>
                   if idx \<ge> length (seqs alignments) then Inl (AlignmentIndexOutOfBounds idx)
                   else
                     (case substr (seqs alignments ! idx) q_start qlen of
                        Inl e \<Rightarrow> Inl e
                      | Inr qsub \<Rightarrow>
                          let qseq = (if fwd then qsub else reverse_complement qsub)
                          in if idx \<ge> length (cigars alignments)
                             then Inl (AlignmentIndexOutOfBounds idx)
                             else
                               (case accuracy_cigar_loop overlap (cigars alignments ! idx)
                                       tseq qseq
                                       [cigar_start_idx overlap..cigar_end_idx overlap]
                                       \<lparr>acc_tpos = 0, acc_qpos = 0, acc_m = 0, acc_s = 0,
                                        acc_i = 0, acc_d = 0\<rparr> of
                                  Inl e \<Rightarrow> Inl e
                                | Inr st \<Rightarrow>
                                    if acc_m st + acc_s st + acc_i st + acc_d st = 0
                                    then Inl AccuracyNotFinite
                                    else Inr (overlap\<lparr>accuracy :=
                                                real_of_int (acc_m st) /
                                                real_of_int (acc_m st + acc_s st + acc_i st
                                                             + acc_d st)\<rparr>)))))"

subsection \<open>get\_max\_ins\_for\_window\<close>

text \<open>
  The loop over the cigar operations of one overlap, \<open>i\<close> running through the indices
  \<open>cigar_start_idx, ..., min(cigar_end_idx, cigar.size() - 1)\<close>. The state is the running
  target position \<open>tpos\<close> and the vector \<open>max_ins\<close>. The write \<open>max_ins[tpos - 1]\<close> is
  checked against the bounds of the vector.
\<close>

fun max_ins_cigar_loop ::
  "OverlapWindow \<Rightarrow> CigarOp list \<Rightarrow> int list \<Rightarrow> int \<Rightarrow> int list \<Rightarrow>
   correction_error + (int \<times> int list)" where
  "max_ins_cigar_loop overlap cigar [] tpos max_ins = Inr (tpos, max_ins)"
| "max_ins_cigar_loop overlap cigar (i # is) tpos max_ins =
     (if i < 0 then Inl (CigarIndexOutOfBounds i)
      else
        let cigar_len = cigar_end_idx overlap - cigar_start_idx overlap + 1;
            cigar_op = op (cigar ! nat i);
            op_len = int (len (cigar ! nat i));
            l = (if cigar_op = MATCH \<or> cigar_op = DEL then op_len else -1)
        in if cigar_op = INS then
             if tpos - 1 < 0 \<or> tpos - 1 \<ge> int (length max_ins)
             then Inl (MaxInsIndexOutOfBounds (tpos - 1))
             else max_ins_cigar_loop overlap cigar is tpos
                    (max_ins[nat (tpos - 1) := max op_len (max_ins ! nat (tpos - 1))])
           else
             let tpos' =
                   (if cigar_len = 1
                    then tpos + (cigar_end_offset overlap - cigar_start_offset overlap)
                    else if i = cigar_start_idx overlap
                    then tpos + (l - cigar_start_offset overlap)
                    else if i = cigar_end_idx overlap
                    then tpos + cigar_end_offset overlap
                    else tpos + l)
             in max_ins_cigar_loop overlap cigar is tpos' max_ins)"

text \<open>The loop over the overlaps of the window.\<close>

fun max_ins_overlaps ::
  "OverlapWindow list \<Rightarrow> CorrectionAlignments \<Rightarrow> int \<Rightarrow> int list \<Rightarrow>
   correction_error + int list" where
  "max_ins_overlaps [] alignments win_tstart max_ins = Inr max_ins"
| "max_ins_overlaps (overlap # rest) alignments win_tstart max_ins =
     (if overlap_idx overlap \<ge> length (cigars alignments)
      then Inl (AlignmentIndexOutOfBounds (overlap_idx overlap))
      else
        let tpos = tstart overlap - win_tstart;
            cigar = cigars alignments ! overlap_idx overlap
        in (case max_ins_cigar_loop overlap cigar
                  [cigar_start_idx overlap..min (cigar_end_idx overlap) (int (length cigar) - 1)]
                  tpos max_ins of
              Inl e \<Rightarrow> Inl e
            | Inr (tpos', max_ins') \<Rightarrow> max_ins_overlaps rest alignments win_tstart max_ins'))"

definition get_max_ins_for_window ::
  "OverlapWindow list \<Rightarrow> CorrectionAlignments \<Rightarrow> int \<Rightarrow> int \<Rightarrow> correction_error + int list" where
  "get_max_ins_for_window windows alignments win_tstart win_len =
     (if win_len < 0 then Inl (NegativeVectorLength win_len)
      else max_ins_overlaps windows alignments win_tstart (replicate (nat win_len) 0))"

subsection \<open>extract\_features\<close>

text \<open>The loop that keeps the overlaps without a long indel.\<close>

fun filter_overlaps ::
  "OverlapWindow list \<Rightarrow> CorrectionAlignments \<Rightarrow> correction_error + OverlapWindow list" where
  "filter_overlaps [] alignments = Inr []"
| "filter_overlaps (ovlp # rest) alignments =
     (case filter_overlap ovlp alignments of
        Inl e \<Rightarrow> Inl e
      | Inr long_indel \<Rightarrow>
          (case filter_overlaps rest alignments of
             Inl e \<Rightarrow> Inl e
           | Inr kept \<Rightarrow> Inr (if long_indel then kept else ovlp # kept)))"

text \<open>The loop that calls \<open>calculate_accuracy\<close> for every overlap that was kept.\<close>

fun calculate_accuracies ::
  "(string \<Rightarrow> string) \<Rightarrow> OverlapWindow list \<Rightarrow> CorrectionAlignments \<Rightarrow> nat \<Rightarrow> int \<Rightarrow> int \<Rightarrow>
   correction_error + OverlapWindow list" where
  "calculate_accuracies reverse_complement [] alignments w win_len m_window_size = Inr []"
| "calculate_accuracies reverse_complement (ovlp # rest) alignments w win_len m_window_size =
     (case calculate_accuracy reverse_complement ovlp alignments w win_len m_window_size of
        Inl e \<Rightarrow> Inl e
      | Inr ovlp' \<Rightarrow>
          (case calculate_accuracies reverse_complement rest alignments w win_len
                  m_window_size of
             Inl e \<Rightarrow> Inl e
           | Inr rest' \<Rightarrow> Inr (ovlp' # rest')))"

text \<open>
  The body of the loop over the windows, for window \<open>w\<close>. \<open>std::sort\<close> by falling accuracy
  is modelled by the stable \<open>sort_key\<close>; the source does not fix the order of overlaps of
  equal accuracy. The log message after the sort reads the first two overlaps of the
  window, which must exist. The calls of \<open>spdlog::info\<close> themselves are left out, here and
  in the other functions of the node. The result of \<open>get_max_ins_for_window\<close> is dropped.
\<close>

definition extract_features_window ::
  "(string \<Rightarrow> string) \<Rightarrow> OverlapWindow list list \<Rightarrow> CorrectionAlignments \<Rightarrow> int \<Rightarrow> nat \<Rightarrow>
   correction_error + OverlapWindow list list" where
  "extract_features_window reverse_complement windows alignments m_window_size w =
     (let tlen = int (length (read_seq alignments));
          win_len = (if w = length windows - 1 then tlen - m_window_size * int w
                     else m_window_size)
      in (case filter_overlaps (windows ! w) alignments of
            Inl e \<Rightarrow> Inl e
          | Inr filtered_overlaps \<Rightarrow>
              (case calculate_accuracies reverse_complement filtered_overlaps alignments w
                      win_len m_window_size of
                 Inl e \<Rightarrow> Inl e
               | Inr scored \<Rightarrow>
                   let sorted_overlaps = sort_key (\<lambda>ovlp. - accuracy ovlp) scored;
                       top = take (nat (min TOP_K (int (length sorted_overlaps))))
                               sorted_overlaps
                   in if length top < 2
                      then Inl (OverlapWindowIndexOutOfBounds w (length top))
                      else
                        (case get_max_ins_for_window top alignments (int w * m_window_size)
                                win_len of
                           Inl e \<Rightarrow> Inl e
                         | Inr max_ins \<Rightarrow> Inr (windows[w := top])))))"

fun extract_features_loop ::
  "(string \<Rightarrow> string) \<Rightarrow> OverlapWindow list list \<Rightarrow> CorrectionAlignments \<Rightarrow> int \<Rightarrow> nat list \<Rightarrow>
   correction_error + OverlapWindow list list" where
  "extract_features_loop reverse_complement windows alignments m_window_size [] = Inr windows"
| "extract_features_loop reverse_complement windows alignments m_window_size (w # ws) =
     (case extract_features_window reverse_complement windows alignments m_window_size w of
        Inl e \<Rightarrow> Inl e
      | Inr windows' \<Rightarrow>
          extract_features_loop reverse_complement windows' alignments m_window_size ws)"

definition extract_features ::
  "(string \<Rightarrow> string) \<Rightarrow> OverlapWindow list list \<Rightarrow> CorrectionAlignments \<Rightarrow> int \<Rightarrow>
   correction_error + OverlapWindow list list" where
  "extract_features reverse_complement windows alignments m_window_size =
     extract_features_loop reverse_complement windows alignments m_window_size
       [0..<length windows]"

subsection \<open>extract\_windows\<close>

text \<open>\<open>windows[idx].push_back(window)\<close>.\<close>

definition push_window ::
  "OverlapWindow list list \<Rightarrow> int \<Rightarrow> OverlapWindow \<Rightarrow> correction_error + OverlapWindow list list" where
  "push_window windows idx window =
     (if idx < 0 \<or> idx \<ge> int (length windows) then Inl (WindowIndexOutOfBounds idx)
      else Inr (windows[nat idx := windows ! nat idx @ [window]]))"

definition new_window ::
  "nat \<Rightarrow> int \<Rightarrow> int \<Rightarrow> int \<Rightarrow> int \<Rightarrow> int \<Rightarrow> int \<Rightarrow> int \<Rightarrow> OverlapWindow" where
  "new_window a ts qs qe cs co ce eo =
     \<lparr>overlap_idx = a, tstart = ts, qstart = qs, qend = qe, cigar_start_idx = cs,
      cigar_start_offset = co, cigar_end_idx = ce, cigar_end_offset = eo, accuracy = 0\<rparr>"

text \<open>
  \<open>int zeroth_window_thresh = (0.1f * m_window_size)\<close>: the \<open>float\<close> nearest to 0.1 times
  the window size, truncated.
\<close>

definition zeroth_window_thresh :: "int \<Rightarrow> int" where
  "zeroth_window_thresh m_window_size =
     \<lfloor>(13421773 / 134217728 :: real) * real_of_int m_window_size\<rfloor>"

definition is_match :: "CigarOp \<Rightarrow> bool" where
  "is_match c \<longleftrightarrow> op c = MATCH \<or> op c = MISMATCH"

text \<open>
  The variables of the loop over the cigar of one alignment that live across rounds.
\<close>

record window_cursor =
  tpos :: int
  qpos :: int
  t_window_start :: int
  q_window_start :: int
  cur_cigar_start_idx :: int
  cur_cigar_start_offset :: int

text \<open>
  The inner loop \<open>for (int i = 1; i < diff_w; i++)\<close>, for an operation that spans whole
  windows. It moves the window start; the start of the cigar bracket is left as it is.
\<close>

fun skip_windows ::
  "nat \<Rightarrow> int \<Rightarrow> CigarOp \<Rightarrow> nat \<Rightarrow> int \<Rightarrow> int list \<Rightarrow> window_cursor \<Rightarrow>
   OverlapWindow list list \<Rightarrow> correction_error + (window_cursor \<times> OverlapWindow list list)" where
  "skip_windows a m_window_size c cigar_idx current_w [] cur windows = Inr (cur, windows)"
| "skip_windows a m_window_size c cigar_idx current_w (i # is) cur windows =
     (let offset = (current_w + i) * m_window_size - tpos cur;
          q_start_new = (if is_match c then qpos cur + offset else qpos cur);
          cur' = cur\<lparr>t_window_start := tpos cur + offset,
                     q_window_start := (if is_match c then qpos cur + offset else qpos cur)\<rparr>
      in if cur_cigar_start_idx cur \<ge> 0 then
           (case push_window windows ((current_w + i) - 1)
                   (new_window a (t_window_start cur) (q_window_start cur) q_start_new
                      (cur_cigar_start_idx cur) (cur_cigar_start_offset cur)
                      (int cigar_idx) offset) of
              Inl e \<Rightarrow> Inl e
            | Inr windows' \<Rightarrow>
                skip_windows a m_window_size c cigar_idx current_w is cur' windows')
         else skip_windows a m_window_size c cigar_idx current_w is cur' windows)"

text \<open>The loop over the cigar operations; \<open>cigar_idx\<close> counts the operations done.\<close>

fun cigar_loop ::
  "nat \<Rightarrow> int \<Rightarrow> CigarOp list \<Rightarrow> nat \<Rightarrow> CigarOp list \<Rightarrow> window_cursor \<Rightarrow>
   OverlapWindow list list \<Rightarrow> correction_error + (window_cursor \<times> OverlapWindow list list)" where
  "cigar_loop a m_window_size cigar cigar_idx [] cur windows = Inr (cur, windows)"
| "cigar_loop a m_window_size cigar cigar_idx (c # cs) cur windows =
     (if op c = INS
      then cigar_loop a m_window_size cigar (cigar_idx + 1) cs
             (cur\<lparr>qpos := qpos cur + int (len c)\<rparr>) windows
      else if op c = OTHER_OP
      then cigar_loop a m_window_size cigar (cigar_idx + 1) cs cur windows
      else
        let tnew = tpos cur + int (len c);
            qnew = (if is_match c then qpos cur + int (len c) else qpos cur);
            current_w = tpos cur sdiv m_window_size;
            new_w = tnew sdiv m_window_size;
            diff_w = new_w - current_w
        in if diff_w = 0
           then cigar_loop a m_window_size cigar (cigar_idx + 1) cs
                  (cur\<lparr>tpos := tnew, qpos := qnew\<rparr>) windows
           else
             (case skip_windows a m_window_size c cigar_idx current_w [1..diff_w - 1]
                     cur windows of
                Inl e \<Rightarrow> Inl e
              | Inr (cur1, windows1) \<Rightarrow>
                  let offset = new_w * m_window_size - tpos cur1;
                      qend0 = (if is_match c then qpos cur1 + offset else qpos cur1);
                      next_is_ins = (cigar_idx + 1 < length cigar \<and>
                                     op (cigar ! (cigar_idx + 1)) = INS);
                      qend1 = (if tnew = new_w * m_window_size \<and> next_is_ins
                               then qend0 + int (len (cigar ! (cigar_idx + 1))) else qend0);
                      cigar_end_idx1 =
                        (if tnew = new_w * m_window_size
                         then (if next_is_ins then int cigar_idx + 2 else int cigar_idx + 1)
                         else int cigar_idx);
                      cigar_end_offset1 = (if tnew = new_w * m_window_size then 0 else offset);
                      cur2 = cur1\<lparr>t_window_start := tpos cur1 + offset,
                                  q_window_start := qend1,
                                  cur_cigar_start_idx := cigar_end_idx1,
                                  cur_cigar_start_offset := cigar_end_offset1,
                                  tpos := tnew, qpos := qnew\<rparr>
                  in if cur_cigar_start_idx cur1 \<ge> 0 then
                       (case push_window windows1 (new_w - 1)
                               (new_window a (t_window_start cur1) (q_window_start cur1) qend1
                                  (cur_cigar_start_idx cur1) (cur_cigar_start_offset cur1)
                                  cigar_end_idx1 cigar_end_offset1) of
                          Inl e \<Rightarrow> Inl e
                        | Inr windows2 \<Rightarrow>
                            cigar_loop a m_window_size cigar (cigar_idx + 1) cs cur2 windows2)
                     else cigar_loop a m_window_size cigar (cigar_idx + 1) cs cur2 windows1))"

text \<open>The body of the loop over the alignments, for alignment \<open>a\<close>.\<close>

definition extract_windows_alignment ::
  "OverlapWindow list list \<Rightarrow> CorrectionAlignments \<Rightarrow> int \<Rightarrow> nat \<Rightarrow>
   correction_error + OverlapWindow list list" where
  "extract_windows_alignment windows alignments m_window_size a =
     (if a \<ge> length (cigars alignments) \<or> a \<ge> length (qnames alignments)
      then Inl (AlignmentIndexOutOfBounds a)
      else
        let overlap = overlaps alignments ! a;
            cigar = cigars alignments ! a
        in if ov_tend overlap - ov_tstart overlap < m_window_size then Inr windows
           else if m_window_size = 0 then Inl DivisionByZero
           else
             let zeroth = zeroth_window_thresh m_window_size;
                 nth_window_thresh = ov_tlen overlap - zeroth;
                 first_window =
                   (if ov_tstart overlap < zeroth then 0
                    else (ov_tstart overlap + m_window_size - 1) sdiv m_window_size);
                 last_window =
                   (if ov_tend overlap > nth_window_thresh
                    then (ov_tend overlap - 1) sdiv m_window_size + 1
                    else ov_tend overlap sdiv m_window_size);
                 tpos0 = ov_tstart overlap
             in if last_window - first_window < 1 then Inr windows
                else
                  let at_start = (tpos0 smod m_window_size = 0 \<or> ov_tstart overlap < zeroth);
                      cur0 = (if at_start
                              then \<lparr>tpos = tpos0, qpos = 0, t_window_start = tpos0,
                                    q_window_start = 0, cur_cigar_start_idx = 0,
                                    cur_cigar_start_offset = 0\<rparr>
                              else \<lparr>tpos = tpos0, qpos = 0, t_window_start = -1,
                                    q_window_start = -1, cur_cigar_start_idx = -1,
                                    cur_cigar_start_offset = -1\<rparr>)
                  in (case cigar_loop a m_window_size cigar 0 cigar cur0 windows of
                        Inl e \<Rightarrow> Inl e
                      | Inr (cur, windows1) \<Rightarrow>
                          if tpos cur > nth_window_thresh \<and> tpos cur smod m_window_size \<noteq> 0
                          then push_window windows1 (last_window - 1)
                                 (new_window a (t_window_start cur) (q_window_start cur)
                                    (qpos cur) (cur_cigar_start_idx cur)
                                    (cur_cigar_start_offset cur) (int (length cigar)) 0)
                          else Inr windows1))"

fun extract_windows_loop ::
  "OverlapWindow list list \<Rightarrow> CorrectionAlignments \<Rightarrow> int \<Rightarrow> nat list \<Rightarrow>
   correction_error + OverlapWindow list list" where
  "extract_windows_loop windows alignments m_window_size [] = Inr windows"
| "extract_windows_loop windows alignments m_window_size (a # as) =
     (case extract_windows_alignment windows alignments m_window_size a of
        Inl e \<Rightarrow> Inl e
      | Inr windows' \<Rightarrow> extract_windows_loop windows' alignments m_window_size as)"

definition extract_windows ::
  "OverlapWindow list list \<Rightarrow> CorrectionAlignments \<Rightarrow> int \<Rightarrow>
   correction_error + OverlapWindow list list" where
  "extract_windows windows alignments m_window_size =
     extract_windows_loop windows alignments m_window_size [0..<length (overlaps alignments)]"

subsection \<open>The input thread\<close>

datatype CorrectionMessage = CorrectionAlignmentsMsg CorrectionAlignments | OtherCorrectionMsg nat

text \<open>
  The node has its window size and the queue of its sink; it has no counter of its own
  (\<open>sample_stats\<close> reports the statistics of the input queue only).
\<close>

record CorrectionNode =
  m_window_size :: int
  correction_sink :: "CorrectionMessage list"

definition gate_read_name :: string where
  "gate_read_name = ''d6a6b9c7-a8ed-4271-a003-bd299cf84c85''"

text \<open>
  The first part of what the thread computes for a read with the hard-coded name: the
  number of windows (in \<open>size_t\<close> arithmetic), the empty windows, and \<open>extract_windows\<close>.
  The vector \<open>windows\<close> is a local variable of the loop body.
\<close>

definition process_windows ::
  "int \<Rightarrow> CorrectionAlignments \<Rightarrow> correction_error + OverlapWindow list list" where
  "process_windows window_size alignments =
     (if size_t_of window_size = 0 then Inl DivisionByZero
      else
        let n_windows = size_t_of (int (length (read_seq alignments)) + window_size - 1)
                          div size_t_of window_size
        in extract_windows (replicate n_windows []) alignments window_size)"

text \<open>
  The body of the loop \<open>while (get_input_message(message))\<close> for one message. For a
  \<open>CorrectionAlignments\<close> message with the hard-coded read name the thread runs
  \<open>extract_windows\<close> and \<open>extract_features\<close> on the local vector; an access outside a
  vector or an exception there ends the thread, and is the result \<open>Inl\<close>. What is computed
  stays in the local variable. The function has no other branch for
  \<open>CorrectionAlignments\<close>, and it increments no counter.
\<close>

definition correction_input_step ::
  "(string \<Rightarrow> string) \<Rightarrow> CorrectionNode \<Rightarrow> CorrectionMessage \<Rightarrow>
   correction_error + CorrectionNode" where
  "correction_input_step reverse_complement node message =
     (case message of
        CorrectionAlignmentsMsg alignments \<Rightarrow>
          if read_name alignments = gate_read_name
          then (case process_windows (m_window_size node) alignments of
                  Inl e \<Rightarrow> Inl e
                | Inr windows \<Rightarrow>
                    (case extract_features reverse_complement windows alignments
                            (m_window_size node) of
                       Inl e \<Rightarrow> Inl e
                     | Inr windows' \<Rightarrow> Inr node))
          else Inr node
      | OtherCorrectionMsg m \<Rightarrow>
          Inr (node\<lparr>correction_sink := correction_sink node @ [OtherCorrectionMsg m]\<rparr>))"


section \<open>Properties of the correction node\<close>

subsection \<open>An alignment whose cigar begins with an insertion\<close>

text \<open>
  A read of 8192 bases with two overlaps that start at target position 0; each cigar is
  an insertion of one base followed by 8192 matches. The window size is 4096.
\<close>

definition demo_overlap :: Overlap where
  "demo_overlap = \<lparr>ov_qstart = 0, ov_qend = 8193, ov_qlen = 8193, ov_tstart = 0,
                   ov_tend = 8192, ov_tlen = 8192, ov_fwd = True\<rparr>"

definition demo_cigar :: "CigarOp list" where
  "demo_cigar = [\<lparr>op = INS, len = 1\<rparr>, \<lparr>op = MATCH, len = 8192\<rparr>]"

definition demo_alignments :: CorrectionAlignments where
  "demo_alignments =
     \<lparr>read_name = gate_read_name, read_seq = replicate 8192 CHR ''A'',
      qnames = [''q0'', ''q1''],
      seqs = [replicate 8193 CHR ''A'', replicate 8193 CHR ''A''],
      overlaps = [demo_overlap, demo_overlap], cigars = [demo_cigar, demo_cigar]\<rparr>"

definition demo_window0 :: "OverlapWindow list" where
  "demo_window0 = [new_window 0 0 0 4097 0 0 1 4096, new_window 1 0 0 4097 0 0 1 4096]"

definition demo_window1 :: "OverlapWindow list" where
  "demo_window1 = [new_window 0 4096 4097 8193 0 0 2 0, new_window 1 4096 4097 8193 0 0 2 0]"

lemma zeroth_window_thresh_4096: "zeroth_window_thresh 4096 = 409"
  by (simp add: zeroth_window_thresh_def)

lemma sdiv_4096:
  "(8192::int) sdiv 4096 = 2" "(8191::int) sdiv 4096 = 1" "(0::int) sdiv 4096 = 0"
  "(0::int) smod 4096 = 0" "(8192::int) smod 4096 = 0"
  by (simp_all add: signed_divide_int_def signed_modulo_int_def)

lemma upt_0_2: "[0..<2] = [0, 1]"
  by (simp add: upt_rec)

lemma demo_windows: "process_windows 4096 demo_alignments = Inr [demo_window0, demo_window1]"
  by (simp add: process_windows_def size_t_of_def demo_alignments_def extract_windows_def
      upt_0_2 extract_windows_alignment_def demo_overlap_def demo_cigar_def
      zeroth_window_thresh_4096 sdiv_4096 Let_def is_match_def push_window_def upto_rec1
      numeral_2_eq_2 demo_window0_def demo_window1_def)

lemma demo_window0_not_filtered:
  "filter_overlap (new_window 0 0 0 4097 0 0 1 4096) demo_alignments = Inr False"
  "filter_overlap (new_window 1 0 0 4097 0 0 1 4096) demo_alignments = Inr False"
  by (simp_all add: filter_overlap_def demo_alignments_def demo_cigar_def new_window_def
      size_t_of_def upt_0_2)

text \<open>
  C10 fails on the code: \<open>extract_windows\<close> gives the first window of these overlaps the
  cigar bracket that starts at operation 0, the insertion, with \<open>tstart\<close> equal to the
  start of the window. Neither overlap has a long indel, so \<open>extract_features\<close> keeps both
  and calls \<open>get_max_ins_for_window\<close> for window 0 with \<open>tstart = 0\<close> and
  \<open>win_len = 4096\<close>. There \<open>tpos\<close> is 0 at the insertion and the write goes to
  \<open>max_ins[-1]\<close>.
\<close>

theorem get_max_ins_for_window_writes_before_start:
  "process_windows 4096 demo_alignments = Inr [demo_window0, demo_window1] \<and>
   get_max_ins_for_window demo_window0 demo_alignments (0 * 4096) 4096
     = Inl (MaxInsIndexOutOfBounds (-1))"
proof -
  have "get_max_ins_for_window demo_window0 demo_alignments (0 * 4096) 4096
          = Inl (MaxInsIndexOutOfBounds (-1))"
    by (simp add: get_max_ins_for_window_def demo_alignments_def demo_cigar_def
        demo_window0_def new_window_def upto_rec1 Let_def)
  then show ?thesis
    using demo_windows by simp
qed

subsection \<open>What the input thread forwards\<close>







subsection \<open>An alignment of plain matches\<close>










lemma size_t_of_small: "0 \<le> i \<Longrightarrow> i < 2 ^ 64 \<Longrightarrow> size_t_of i = nat i"
  by (simp add: size_t_of_def)

lemma string_at_inside:
  assumes "0 \<le> i" "i < int (length str)" "length str < 2 ^ 64"
  shows "string_at str i = Inr (str ! nat i)"
proof -
  have lt: "nat i < length str"
    using assms(1,2) by linarith
  have "int (length str) < int (2 ^ 64)"
    using assms(3) by (simp only: of_nat_less_iff)
  then have "i < 2 ^ 64"
    using assms(2) by simp
  then have "size_t_of i = nat i"
    using assms(1) by (simp add: size_t_of_small)
  then show ?thesis
    using lt by (simp add: string_at_def)
qed

lemma count_matches_equal:
  assumes "\<forall>j \<in> set js. 0 \<le> acc_tpos st + j \<and> acc_tpos st + j < int (length tseq) \<and>
                         0 \<le> acc_qpos st + j \<and> acc_qpos st + j < int (length qseq) \<and>
                         tseq ! nat (acc_tpos st + j) = qseq ! nat (acc_qpos st + j)"
    and "length tseq < 2 ^ 64" and "length qseq < 2 ^ 64"
  shows "count_matches tseq qseq js st = Inr (st\<lparr>acc_m := acc_m st + int (length js)\<rparr>)"
  using assms(1)
proof (induction js arbitrary: st)
  case Nil
  then show ?case by simp
next
  case (Cons j js)
  have t: "string_at tseq (acc_tpos st + j) = Inr (tseq ! nat (acc_tpos st + j))"
    using Cons.prems assms(2) by (intro string_at_inside) auto
  have q: "string_at qseq (acc_qpos st + j) = Inr (qseq ! nat (acc_qpos st + j))"
    using Cons.prems assms(3) by (intro string_at_inside) auto
  have same: "tseq ! nat (acc_tpos st + j) = qseq ! nat (acc_qpos st + j)"
    using Cons.prems by simp
  have "count_matches tseq qseq js (st\<lparr>acc_m := acc_m st + 1\<rparr>) =
          Inr (st\<lparr>acc_m := acc_m st + 1, acc_m := acc_m st + 1 + int (length js)\<rparr>)"
    using Cons.prems by (subst Cons.IH) auto
  then show ?case
    by (simp add: t q same)
qed

lemma count_matches_replicate:
  assumes "0 \<le> acc_tpos st" "acc_tpos st + n \<le> int a" "0 \<le> acc_qpos st"
    "acc_qpos st + n \<le> int b" "0 \<le> n" "a < 2 ^ 64" "b < 2 ^ 64"
  shows "count_matches (replicate a c) (replicate b c) (match_positions n) st =
           Inr (st\<lparr>acc_m := acc_m st + n\<rparr>)"
proof -
  have "count_matches (replicate a c) (replicate b c) (match_positions n) st =
           Inr (st\<lparr>acc_m := acc_m st + int (length (match_positions n))\<rparr>)"
    using assms by (intro count_matches_equal) (auto simp: match_positions_def)
  then show ?thesis
    using assms(5) by (simp add: match_positions_def)
qed












text \<open>
  The alignment whose cigar begins with an insertion ends the thread: \<open>extract_features\<close>
  keeps both overlaps of window 0, gives them the accuracy 4096/4097 and calls
  \<open>get_max_ins_for_window\<close>, which writes to \<open>max_ins[-1]\<close>.
\<close>

lemma demo_accuracy_loop:
  "accuracy_cigar_loop (new_window a 0 0 4097 0 0 1 4096) demo_cigar
     (replicate 4096 CHR ''A'') (replicate 4097 CHR ''A'') [0, 1]
     \<lparr>acc_tpos = 0, acc_qpos = 0, acc_m = 0, acc_s = 0, acc_i = 0, acc_d = 0\<rparr> =
   Inr \<lparr>acc_tpos = 4096, acc_qpos = 4097, acc_m = 4096, acc_s = 0, acc_i = 1, acc_d = 0\<rparr>"
  by (simp add: bracket_len_def cigar_at_def demo_cigar_def new_window_def
      count_matches_replicate)

lemma demo_accuracy:
  assumes "a < 2"
  shows "calculate_accuracy reverse_complement (new_window a 0 0 4097 0 0 1 4096)
           demo_alignments 0 4096 4096 =
         Inr ((new_window a 0 0 4097 0 0 1 4096)\<lparr>accuracy := 4096 / 4097\<rparr>)"
proof -
  have sub: "substr (replicate 8192 CHR ''A'') 0 4096 = Inr (replicate 4096 CHR ''A'')"
    "substr (replicate 8193 CHR ''A'') 0 4097 = Inr (replicate 4097 CHR ''A'')"
    by (simp_all add: substr_def size_t_of_def)
  have fields: "tstart (new_window a 0 0 4097 0 0 1 4096) = 0"
    "qstart (new_window a 0 0 4097 0 0 1 4096) = 0"
    "qend (new_window a 0 0 4097 0 0 1 4096) = 4097"
    "overlap_idx (new_window a 0 0 4097 0 0 1 4096) = a"
    "cigar_start_idx (new_window a 0 0 4097 0 0 1 4096) = 0"
    "cigar_end_idx (new_window a 0 0 4097 0 0 1 4096) = 1"
    by (simp_all add: new_window_def)
  have al: "overlaps demo_alignments ! a = demo_overlap" "seqs demo_alignments ! a = replicate 8193 CHR ''A''"
    "cigars demo_alignments ! a = demo_cigar" "read_seq demo_alignments = replicate 8192 CHR ''A''"
    "length (overlaps demo_alignments) = 2" "length (seqs demo_alignments) = 2"
    "length (cigars demo_alignments) = 2"
    using less_2_cases[OF assms] by (auto simp: demo_alignments_def)
  have range: "[0..1::int] = [0, 1]"
    by (simp add: upto_rec1)
  show ?thesis
    unfolding calculate_accuracy_def
    using assms
    by (simp add: fields al sub range demo_accuracy_loop demo_overlap_def Let_def
        del: accuracy_cigar_loop.simps)
qed

lemma demo_alignments_step:
  "m_window_size node = 4096 \<Longrightarrow>
   correction_input_step reverse_complement node (CorrectionAlignmentsMsg demo_alignments)
     = Inl (MaxInsIndexOutOfBounds (-1))"
proof -
  assume ws: "m_window_size node = 4096"
  let ?scored = "map (\<lambda>ovlp. ovlp\<lparr>accuracy := 4096 / 4097\<rparr>) demo_window0"
  have filtered: "filter_overlaps demo_window0 demo_alignments = Inr demo_window0"
    by (simp add: demo_window0_def filter_overlap_def demo_alignments_def demo_cigar_def
        new_window_def size_t_of_def upt_0_2)
  have scored: "calculate_accuracies reverse_complement demo_window0 demo_alignments 0 4096 4096
                  = Inr ?scored"
    by (simp add: demo_window0_def demo_accuracy)
  have sorted: "sort_key (\<lambda>ovlp. - accuracy ovlp) ?scored = ?scored"
    by (simp add: demo_window0_def)
  have max_ins: "get_max_ins_for_window ?scored demo_alignments 0 4096
          = Inl (MaxInsIndexOutOfBounds (-1))"
    by (simp add: get_max_ins_for_window_def demo_alignments_def demo_cigar_def
        demo_window0_def new_window_def upto_rec1 Let_def)
  have window0: "extract_features_window reverse_complement [demo_window0, demo_window1]
       demo_alignments 4096 0 = Inl (MaxInsIndexOutOfBounds (-1))"
    unfolding extract_features_window_def
    by (simp add: filtered scored sorted max_ins TOP_K_def Let_def
        demo_window0_def[THEN arg_cong, of length])
  have "extract_features reverse_complement [demo_window0, demo_window1] demo_alignments 4096
          = Inl (MaxInsIndexOutOfBounds (-1))"
    by (simp add: extract_features_def upt_0_2 window0)
  then show ?thesis
    using ws
    by (simp add: correction_input_step_def demo_alignments_def[THEN arg_cong, of read_name]
        demo_windows)
qed






section \<open>Creating the basecall runners (nn/Runners.cpp)\<close>

text \<open>
  The runner and caller classes are outside the sources. A runner is modelled by what it
  reports: \<open>model_stride()\<close>, \<open>chunk_size()\<close> and \<open>batch_size()\<close>; a caller by the values
  it settled on when it was constructed, which the runners bound to it report. The
  constructors, \<open>auto_calculate_num_runners\<close> and \<open>parse_cuda_device_string\<close> are
  parameters of the model; a constructor that throws returns \<open>Inl\<close>.
\<close>

record Runner =
  runner_model_stride :: nat
  runner_chunk_size :: nat
  runner_batch_size :: nat

datatype runner_error =
    UnsupportedDevice string
  | NoDevicesFound
  | ConstructionFailed string
  | EmptyRunnerVector
  | AssertionAbort

text \<open>
  The function is compiled in one of three ways: without GPU support, for Apple (Metal),
  or for CUDA; and with or without \<open>NDEBUG\<close>, which removes the \<open>assert\<close>.
\<close>

datatype gpu_build = NoGpuBuild | MetalBuild | CudaBuild

record 'cfg runner_env =
  auto_calculate_num_runners :: "'cfg \<Rightarrow> nat \<Rightarrow> real \<Rightarrow> nat"
  make_cpu_runner :: "'cfg \<Rightarrow> string \<Rightarrow> int \<Rightarrow> int \<Rightarrow> runner_error + Runner"
  create_metal_caller :: "'cfg \<Rightarrow> nat \<Rightarrow> nat \<Rightarrow> runner_error + Runner"
  parse_cuda_device_string :: "string \<Rightarrow> runner_error + string list"
  create_cuda_caller :: "'cfg \<Rightarrow> int \<Rightarrow> int \<Rightarrow> string \<Rightarrow> real \<Rightarrow> bool \<Rightarrow> runner_error + Runner"

type_synonym runner_log = "(log_level \<times> string) list"

text \<open>Running constructors one after the other; the first exception ends the sequence.\<close>

fun construct_all :: "(runner_error + 'a) list \<Rightarrow> runner_error + 'a list" where
  "construct_all [] = Inr []"
| "construct_all (c # cs) =
     (case c of
        Inl e \<Rightarrow> Inl e
      | Inr x \<Rightarrow> (case construct_all cs of Inl e \<Rightarrow> Inl e | Inr xs \<Rightarrow> Inr (x # xs)))"

text \<open>
  The message about the batch size after the runners of one caller were added;
  \<open>runners.back()\<close> of an empty vector does not exist.
\<close>

definition log_batch_size ::
  "string \<Rightarrow> nat \<Rightarrow> Runner list \<Rightarrow> runner_log \<Rightarrow> runner_error + runner_log" where
  "log_batch_size for_device batch_size runners lg =
     (if runners = [] then Inl EmptyRunnerVector
      else if batch_size = 0
      then Inr (lg @ [(LogInfo, '' - set batch size'' @ for_device @ '' to ''
                         @ to_string (runner_batch_size (last runners)))])
      else if runner_batch_size (last runners) \<noteq> batch_size
      then Inr (lg @ [(LogWarn, ''- set batch size'' @ for_device @ '' to ''
                         @ to_string (runner_batch_size (last runners)))])
      else Inr lg)"

text \<open>
  The loop over the devices in the CUDA branch, each device with the caller constructed
  for it (\<open>devices[j]\<close> and \<open>callers[j]\<close>).
\<close>

fun add_cuda_runners ::
  "(string \<times> Runner) list \<Rightarrow> nat \<Rightarrow> nat \<Rightarrow> Runner list \<Rightarrow> runner_log \<Rightarrow>
   runner_error + (Runner list \<times> runner_log)" where
  "add_cuda_runners [] num_gpu_runners batch_size runners lg = Inr (runners, lg)"
| "add_cuda_runners ((device_string, caller) # rest) num_gpu_runners batch_size runners lg =
     (let runners' = runners @ replicate num_gpu_runners caller
      in (case log_batch_size ('' for '' @ device_string) batch_size runners' lg of
            Inl e \<Rightarrow> Inl e
          | Inr lg' \<Rightarrow> add_cuda_runners rest num_gpu_runners batch_size runners' lg'))"

text \<open>
  The part of the function that fills \<open>runners\<close> and sets \<open>num_devices\<close>.
\<close>

definition build_runners ::
  "gpu_build \<Rightarrow> 'cfg runner_env \<Rightarrow> 'cfg \<Rightarrow> string \<Rightarrow> nat \<Rightarrow> nat \<Rightarrow> nat \<Rightarrow> nat \<Rightarrow> real \<Rightarrow> bool \<Rightarrow>
   runner_error + (Runner list \<times> nat \<times> runner_log)" where
  "build_runners build env model_config device num_gpu_runners num_cpu_runners batch_size
     chunk_size memory_fraction guard_gpus =
     (if device = ''cpu'' then
        let batch_size1 = (if batch_size = 0 then 128 else batch_size);
            num_cpu_runners1 =
              (if num_cpu_runners = 0
               then auto_calculate_num_runners env model_config batch_size1 memory_fraction
               else num_cpu_runners);
            lg = [(LogDebug, ''- CPU calling: set batch size to '' @ to_string batch_size1
                     @ '', num_cpu_runners to '' @ to_string num_cpu_runners1)]
        in (case construct_all
                  (map (\<lambda>i. make_cpu_runner env model_config device (int chunk_size)
                               (int batch_size1)) [0..<num_cpu_runners1]) of
              Inl e \<Rightarrow> Inl e
            | Inr runners \<Rightarrow> Inr (runners, 1, lg))
      else
        (case build of
           NoGpuBuild \<Rightarrow> Inr ([], 1, [])
         | MetalBuild \<Rightarrow>
             if device = ''metal'' then
               (case create_metal_caller env model_config chunk_size batch_size of
                  Inl e \<Rightarrow> Inl e
                | Inr caller \<Rightarrow>
                    let runners = replicate num_gpu_runners caller
                    in (case log_batch_size [] batch_size runners [] of
                          Inl e \<Rightarrow> Inl e
                        | Inr lg \<Rightarrow> Inr (runners, 1, lg)))
             else Inl (UnsupportedDevice (''Unsupported device: '' @ device))
         | CudaBuild \<Rightarrow>
             (case parse_cuda_device_string env device of
                Inl e \<Rightarrow> Inl e
              | Inr devices \<Rightarrow>
                  if length devices = 0 then Inl NoDevicesFound
                  else
                    (case construct_all
                            (map (\<lambda>device_string.
                                    create_cuda_caller env model_config (int chunk_size)
                                      (int batch_size) device_string memory_fraction guard_gpus)
                               devices) of
                       Inl e \<Rightarrow> Inl e
                     | Inr callers \<Rightarrow>
                         (case add_cuda_runners (zip devices callers) num_gpu_runners
                                 batch_size [] [] of
                            Inl e \<Rightarrow> Inl e
                          | Inr (runners, lg) \<Rightarrow> Inr (runners, length devices, lg))))))"

text \<open>
  The rest of the function, up to the \<open>return\<close> statement: the values of the local
  variables \<open>runners\<close>, \<open>num_devices\<close> and \<open>chunk_size\<close> there, and what was written to the
  log. \<open>chunk_size\<close> is a parameter passed by value, so the assignment
  \<open>chunk_size = adjusted_chunk_size\<close> changes this local copy.
\<close>

definition create_basecall_runners_locals ::
  "gpu_build \<Rightarrow> bool \<Rightarrow> 'cfg runner_env \<Rightarrow> 'cfg \<Rightarrow> string \<Rightarrow> nat \<Rightarrow> nat \<Rightarrow> nat \<Rightarrow> nat \<Rightarrow> real \<Rightarrow>
   bool \<Rightarrow> runner_error + (Runner list \<times> nat \<times> nat \<times> runner_log)" where
  "create_basecall_runners_locals build ndebug env model_config device num_gpu_runners
     num_cpu_runners batch_size chunk_size memory_fraction guard_gpus =
     (case build_runners build env model_config device num_gpu_runners num_cpu_runners
             batch_size chunk_size memory_fraction guard_gpus of
        Inl e \<Rightarrow> Inl e
      | Inr (runners, num_devices, lg) \<Rightarrow>
          (case runners of
             [] \<Rightarrow> Inl EmptyRunnerVector
           | front # others \<Rightarrow>
               let model_stride = runner_model_stride front;
                   adjusted_chunk_size = runner_chunk_size front
               in if \<not> ndebug \<and>
                     \<not> list_all (\<lambda>runner. runner_model_stride runner = model_stride \<and>
                                          runner_chunk_size runner = adjusted_chunk_size) runners
                  then Inl AssertionAbort
                  else if chunk_size \<noteq> adjusted_chunk_size
                  then Inr (runners, num_devices, adjusted_chunk_size,
                            lg @ [(LogDebug,
                                   ''- adjusted chunk size to match model stride: ''
                                   @ to_string chunk_size @ '' -> ''
                                   @ to_string adjusted_chunk_size)])
                  else Inr (runners, num_devices, chunk_size, lg)))"

text \<open>
  The whole function: \<open>return {runners, num_devices}\<close>. Its result is the pair it returns
  together with what it wrote to the log; the local \<open>chunk_size\<close> ends with the call.
\<close>

definition create_basecall_runners ::
  "gpu_build \<Rightarrow> bool \<Rightarrow> 'cfg runner_env \<Rightarrow> 'cfg \<Rightarrow> string \<Rightarrow> nat \<Rightarrow> nat \<Rightarrow> nat \<Rightarrow> nat \<Rightarrow> real \<Rightarrow>
   bool \<Rightarrow> runner_error + ((Runner list \<times> nat) \<times> runner_log)" where
  "create_basecall_runners build ndebug env model_config device num_gpu_runners num_cpu_runners
     batch_size chunk_size memory_fraction guard_gpus =
     (case create_basecall_runners_locals build ndebug env model_config device num_gpu_runners
             num_cpu_runners batch_size chunk_size memory_fraction guard_gpus of
        Inl e \<Rightarrow> Inl e
      | Inr (runners, num_devices, chunk_size_at_return, lg) \<Rightarrow>
          Inr ((runners, num_devices), lg))"

section \<open>Properties of the runner creation\<close>

text \<open>
  An environment in which every constructor has stride 5 and rounds the chunk size down
  to a multiple of the stride, and the CPU runner it makes for a requested chunk size of
  10001.
\<close>

definition round_to_stride :: "nat \<Rightarrow> nat \<Rightarrow> nat" where
  "round_to_stride stride chunk_size = (chunk_size div stride) * stride"

definition demo_runner_env :: "unit runner_env" where
  "demo_runner_env =
     \<lparr>auto_calculate_num_runners = (\<lambda>model_config batch_size memory_fraction. 2),
      make_cpu_runner = (\<lambda>model_config device chunk_size batch_size.
         Inr \<lparr>runner_model_stride = 5,
              runner_chunk_size = round_to_stride 5 (nat chunk_size),
              runner_batch_size = nat batch_size\<rparr>),
      create_metal_caller = (\<lambda>model_config chunk_size batch_size.
         Inr \<lparr>runner_model_stride = 5,
              runner_chunk_size = round_to_stride 5 chunk_size,
              runner_batch_size = (if batch_size = 0 then 64 else batch_size)\<rparr>),
      parse_cuda_device_string = (\<lambda>device. Inr [device]),
      create_cuda_caller = (\<lambda>model_config chunk_size batch_size device memory_fraction guard_gpus.
         Inr \<lparr>runner_model_stride = 5,
              runner_chunk_size = round_to_stride 5 (nat chunk_size),
              runner_batch_size = (if batch_size = 0 then 64 else nat batch_size)\<rparr>)\<rparr>"

definition demo_cpu_runner :: Runner where
  "demo_cpu_runner =
     \<lparr>runner_model_stride = 5, runner_chunk_size = 10000, runner_batch_size = 128\<rparr>"

definition demo_runner_log :: runner_log where
  "demo_runner_log =
     [(LogDebug, ''- CPU calling: set batch size to 128, num_cpu_runners to 2''),
      (LogDebug, ''- adjusted chunk size to match model stride: 10001 -> 10000'')]"

lemma to_string_examples:
  "to_string 128 = ''128''" "to_string 2 = ''2''" "to_string 10001 = ''10001''"
  "to_string 10000 = ''10000''"
  by (simp_all add: to_string.simps digit_char_def)

lemma demo_create_basecall_runners_locals:
  "create_basecall_runners_locals NoGpuBuild False demo_runner_env () ''cpu'' 0 0 0 10001 1 False =
     Inr ([demo_cpu_runner, demo_cpu_runner], 1, 10000, demo_runner_log)"
  by (simp add: create_basecall_runners_locals_def build_runners_def demo_runner_env_def
      round_to_stride_def demo_cpu_runner_def to_string_examples upt_0_2 Let_def
      demo_runner_log_def)

text \<open>
  What holds of every successful call. There is at least one runner. In a build with
  assertions all runners report the stride and the chunk size of the first one. When that
  chunk size is not the requested one, the adjustment is written to the log. The number
  returned with the runners is the number of devices: 1 on the CPU path and the Metal
  path, the number of parsed devices on the CUDA path.
\<close>

lemma create_basecall_runners_successful:
  assumes ok: "create_basecall_runners build ndebug env model_config device num_gpu_runners
                 num_cpu_runners batch_size chunk_size memory_fraction guard_gpus
               = Inr ((runners, num_devices), lg)"
  shows "runners \<noteq> []"
    and "\<not> ndebug \<Longrightarrow>
         \<forall>runner \<in> set runners.
            runner_model_stride runner = runner_model_stride (hd runners) \<and>
            runner_chunk_size runner = runner_chunk_size (hd runners)"
    and "chunk_size \<noteq> runner_chunk_size (hd runners) \<Longrightarrow>
            (LogDebug, ''- adjusted chunk size to match model stride: '' @ to_string chunk_size
               @ '' -> '' @ to_string (runner_chunk_size (hd runners))) \<in> set lg"
    and "num_devices =
           (if device = ''cpu'' \<or> build \<noteq> CudaBuild then 1
            else (case parse_cuda_device_string env device of
                    Inl e \<Rightarrow> 0
                  | Inr devices \<Rightarrow> length devices))"
proof -
  obtain lg0 where built: "build_runners build env model_config device num_gpu_runners
      num_cpu_runners batch_size chunk_size memory_fraction guard_gpus
      = Inr (runners, num_devices, lg0)"
    using ok by (auto simp: create_basecall_runners_def create_basecall_runners_locals_def
        Let_def split: sum.splits prod.splits list.splits if_splits)
  show "runners \<noteq> []"
    using ok built by (auto simp: create_basecall_runners_def
        create_basecall_runners_locals_def)
  show "num_devices =
           (if device = ''cpu'' \<or> build \<noteq> CudaBuild then 1
            else (case parse_cuda_device_string env device of
                    Inl e \<Rightarrow> 0
                  | Inr devices \<Rightarrow> length devices))"
    using built
    by (auto simp: build_runners_def Let_def split: sum.splits gpu_build.splits if_splits)
  show "(LogDebug, ''- adjusted chunk size to match model stride: '' @ to_string chunk_size
               @ '' -> '' @ to_string (runner_chunk_size (hd runners))) \<in> set lg"
    if "chunk_size \<noteq> runner_chunk_size (hd runners)"
    using ok built that
    by (auto simp: create_basecall_runners_def create_basecall_runners_locals_def Let_def
        split: list.splits if_splits)
  show "\<forall>runner \<in> set runners.
            runner_model_stride runner = runner_model_stride (hd runners) \<and>
            runner_chunk_size runner = runner_chunk_size (hd runners)"
    if "\<not> ndebug"
    using ok built that
    by (auto simp: create_basecall_runners_def create_basecall_runners_locals_def Let_def
        list_all_iff split: list.splits if_splits)
qed

text \<open>
  Without assertions the runners of a CUDA build can disagree: with two devices whose
  callers have strides 5 and 6, a requested chunk size of 10001 gives runners with chunk
  sizes 10000 and 9996, and the call succeeds.
\<close>

definition mixed_runner_env :: "unit runner_env" where
  "mixed_runner_env =
     demo_runner_env
       \<lparr>parse_cuda_device_string := (\<lambda>device. Inr [''cuda:0'', ''cuda:1'']),
        create_cuda_caller :=
          (\<lambda>model_config chunk_size batch_size device memory_fraction guard_gpus.
             let stride = (if device = ''cuda:0'' then 5 else 6)
             in Inr \<lparr>runner_model_stride = stride,
                     runner_chunk_size = round_to_stride stride (nat chunk_size),
                     runner_batch_size = 64\<rparr>)\<rparr>"

lemma release_build_runners_disagree:
  "create_basecall_runners CudaBuild True mixed_runner_env () ''cuda:all'' 1 0 64 10001 1 False =
     Inr (([\<lparr>runner_model_stride = 5, runner_chunk_size = 10000, runner_batch_size = 64\<rparr>,
            \<lparr>runner_model_stride = 6, runner_chunk_size = 9996, runner_batch_size = 64\<rparr>], 2),
          [(LogDebug, ''- adjusted chunk size to match model stride: 10001 -> 10000'')])"
  by (simp add: create_basecall_runners_def create_basecall_runners_locals_def
      build_runners_def mixed_runner_env_def demo_runner_env_def round_to_stride_def
      log_batch_size_def to_string_examples Let_def)

text \<open>
  C2 fails on the code in its last part. For a requested chunk size of 10001 the runners
  settle on 10000. The function writes the adjustment to the log and stores 10000 in its
  local \<open>chunk_size\<close>, and then returns the two runners and the number 1, the number of
  devices: the adjusted value is not returned to the caller.
\<close>

theorem create_basecall_runners_drops_adjusted_chunk_size:
  "create_basecall_runners_locals NoGpuBuild False demo_runner_env () ''cpu'' 0 0 0 10001 1 False =
     Inr ([demo_cpu_runner, demo_cpu_runner], 1, 10000, demo_runner_log) \<and>
   create_basecall_runners NoGpuBuild False demo_runner_env () ''cpu'' 0 0 0 10001 1 False =
     Inr (([demo_cpu_runner, demo_cpu_runner], 1), demo_runner_log) \<and>
   runner_chunk_size demo_cpu_runner = 10000 \<and>
   (LogDebug, ''- adjusted chunk size to match model stride: 10001 -> 10000'')
     \<in> set demo_runner_log"
  by (simp add: create_basecall_runners_def demo_create_basecall_runners_locals
      demo_cpu_runner_def demo_runner_log_def)

section \<open>The asynchronous task executor (utils/concurrency/async\_task\_executor.cpp)\<close>

text \<open>
  The threads of the executor are modelled as an interleaving of atomic steps on a shared
  state. A task is identified by a number: every call of \<open>send_impl\<close> and every round of
  the loop in \<open>join\<close> makes a new \<open>WaitingTask\<close>. The queue is guarded by \<open>m_mutex\<close>, so
  pushing and popping are atomic steps; waiting on the condition variable is a step that
  can only be taken when the queue is not empty.
\<close>

datatype task_body = ClientTask | SetDoneTask

text \<open>Where the thread that sends task \<open>t\<close> is in \<open>send_impl\<close> (or in \<open>join\<close>).\<close>

datatype sender_pc = NotStarted | WaitingForStarted | Returned | Posted

text \<open>Where a worker is in \<open>process_task_queue\<close>.\<close>

datatype worker_pc =
    LoopHead
  | WaitOnNextTask
  | HoldingTask nat
  | RunningTask nat
  | Exited

datatype exec_event =
    SendPush nat
  | JoinPost nat
  | WorkerPop nat nat
  | StartedSignal nat nat
  | SendReturn nat
  | TaskDone nat nat

record executor =
  m_task_queue :: "nat list"
  started :: "nat \<Rightarrow> bool"
  m_done :: bool
  sender :: "nat \<Rightarrow> sender_pc"
  worker :: "nat \<Rightarrow> worker_pc"
  history :: "exec_event list"

definition executor_init :: executor where
  "executor_init =
     \<lparr>m_task_queue = [], started = (\<lambda>t. False), m_done = False,
      sender = (\<lambda>t. NotStarted), worker = (\<lambda>w. LoopHead), history = []\<rparr>"

text \<open>
  Modelled from the spec: the latch \<open>started\<close> of a waiting task, whose class is outside
  the sources (the spec's flag-signal: a handshake latch per task is signalled by the
  picking worker, and \<open>send\<close> blocks until then). \<open>signal()\<close> sets the latch; \<open>wait()\<close>
  returns only when the latch is set.
\<close>

definition latch_signal :: "nat \<Rightarrow> executor \<Rightarrow> executor" where
  "latch_signal t s = s\<lparr>started := (started s)(t := True)\<rparr>"

definition latch_wait_may_return :: "nat \<Rightarrow> executor \<Rightarrow> bool" where
  "latch_wait_may_return t s = started s t"

text \<open>
  The steps. \<open>body\<close> gives the function each task wraps and \<open>m_num_threads\<close> the number
  of workers.
  \<^item> \<open>send_push\<close>: \<open>send_impl\<close> makes the waiting task, pushes it under the lock and
    notifies; it then waits on the latch.
  \<^item> \<open>send_return\<close>: \<open>waiting_task->started.wait()\<close> returns, and with it \<open>send_impl\<close>.
  \<^item> \<open>join_post\<close>: \<open>join\<close> puts a task that sets \<open>m_done\<close> into the queue and does not
    wait for it.
  \<^item> \<open>worker_enter\<close>, \<open>worker_exit\<close>: the test of the \<open>while\<close> loop.
  \<^item> \<open>worker_pop\<close>: \<open>wait_on_next_task\<close> takes the front of the queue.
  \<^item> \<open>worker_signal\<close>: \<open>waiting_task->started.signal()\<close>.
  \<^item> \<open>worker_run\<close>: \<open>waiting_task->task()\<close> has run.
\<close>

inductive exec_step :: "(nat \<Rightarrow> task_body) \<Rightarrow> nat \<Rightarrow> executor \<Rightarrow> executor \<Rightarrow> bool"
  for body :: "nat \<Rightarrow> task_body" and m_num_threads :: nat where
  send_push:
    "sender s t = NotStarted \<Longrightarrow> body t = ClientTask \<Longrightarrow>
     exec_step body m_num_threads s
       (s\<lparr>m_task_queue := m_task_queue s @ [t],
          sender := (sender s)(t := WaitingForStarted),
          history := history s @ [SendPush t]\<rparr>)"
| send_return:
    "sender s t = WaitingForStarted \<Longrightarrow> latch_wait_may_return t s \<Longrightarrow>
     exec_step body m_num_threads s
       (s\<lparr>sender := (sender s)(t := Returned),
          history := history s @ [SendReturn t]\<rparr>)"
| join_post:
    "sender s t = NotStarted \<Longrightarrow> body t = SetDoneTask \<Longrightarrow>
     exec_step body m_num_threads s
       (s\<lparr>m_task_queue := m_task_queue s @ [t],
          sender := (sender s)(t := Posted),
          history := history s @ [JoinPost t]\<rparr>)"
| worker_enter:
    "w < m_num_threads \<Longrightarrow> worker s w = LoopHead \<Longrightarrow> \<not> m_done s \<Longrightarrow>
     exec_step body m_num_threads s (s\<lparr>worker := (worker s)(w := WaitOnNextTask)\<rparr>)"
| worker_exit:
    "w < m_num_threads \<Longrightarrow> worker s w = LoopHead \<Longrightarrow> m_done s \<Longrightarrow>
     exec_step body m_num_threads s (s\<lparr>worker := (worker s)(w := Exited)\<rparr>)"
| worker_pop:
    "w < m_num_threads \<Longrightarrow> worker s w = WaitOnNextTask \<Longrightarrow> m_task_queue s = t # rest \<Longrightarrow>
     exec_step body m_num_threads s
       (s\<lparr>m_task_queue := rest,
          worker := (worker s)(w := HoldingTask t),
          history := history s @ [WorkerPop w t]\<rparr>)"
| worker_signal:
    "w < m_num_threads \<Longrightarrow> worker s w = HoldingTask t \<Longrightarrow>
     exec_step body m_num_threads s
       ((latch_signal t s)
          \<lparr>worker := (worker s)(w := RunningTask t),
           history := history s @ [StartedSignal w t]\<rparr>)"
| worker_run:
    "w < m_num_threads \<Longrightarrow> worker s w = RunningTask t \<Longrightarrow>
     exec_step body m_num_threads s
       (s\<lparr>m_done := (m_done s \<or> body t = SetDoneTask),
          worker := (worker s)(w := LoopHead),
          history := history s @ [TaskDone w t]\<rparr>)"

text \<open>The states an execution of the executor can be in.\<close>

inductive reachable :: "(nat \<Rightarrow> task_body) \<Rightarrow> nat \<Rightarrow> executor \<Rightarrow> bool"
  for body :: "nat \<Rightarrow> task_body" and m_num_threads :: nat where
  init: "reachable body m_num_threads executor_init"
| step: "reachable body m_num_threads s \<Longrightarrow> exec_step body m_num_threads s s' \<Longrightarrow>
         reachable body m_num_threads s'"

text \<open>
  In the history, worker \<open>w\<close> popped task \<open>t\<close>, later signalled its latch, and still later
  the sender of \<open>t\<close> returned.
\<close>

definition popped_then_signalled :: "exec_event list \<Rightarrow> nat \<Rightarrow> nat \<Rightarrow> bool" where
  "popped_then_signalled h w t \<longleftrightarrow>
     (\<exists>h1 h2 h3. h = h1 @ [WorkerPop w t] @ h2 @ [StartedSignal w t] @ h3)"

definition popped_signalled_returned :: "exec_event list \<Rightarrow> nat \<Rightarrow> nat \<Rightarrow> bool" where
  "popped_signalled_returned h w t \<longleftrightarrow>
     (\<exists>h1 h2 h3 h4.
        h = h1 @ [WorkerPop w t] @ h2 @ [StartedSignal w t] @ h3 @ [SendReturn t] @ h4)"

section \<open>Properties of the task executor\<close>

lemma popped_then_signalled_append:
  assumes "popped_then_signalled h w t"
  shows "popped_then_signalled (h @ es) w t"
proof -
  obtain h1 h2 h3 where "h = h1 @ [WorkerPop w t] @ h2 @ [StartedSignal w t] @ h3"
    using assms unfolding popped_then_signalled_def by blast
  then have "h @ es = h1 @ [WorkerPop w t] @ h2 @ [StartedSignal w t] @ (h3 @ es)"
    by simp
  then show ?thesis
    unfolding popped_then_signalled_def by blast
qed

lemma popped_signalled_returned_append:
  assumes "popped_signalled_returned h w t"
  shows "popped_signalled_returned (h @ es) w t"
proof -
  obtain h1 h2 h3 h4 where
    "h = h1 @ [WorkerPop w t] @ h2 @ [StartedSignal w t] @ h3 @ [SendReturn t] @ h4"
    using assms unfolding popped_signalled_returned_def by blast
  then have "h @ es =
      h1 @ [WorkerPop w t] @ h2 @ [StartedSignal w t] @ h3 @ [SendReturn t] @ (h4 @ es)"
    by simp
  then show ?thesis
    unfolding popped_signalled_returned_def by blast
qed

lemma holding_was_popped:
  assumes "reachable body n s"
  shows "worker s w = HoldingTask t \<Longrightarrow> WorkerPop w t \<in> set (history s)"
  using assms
proof (induction arbitrary: w t rule: reachable.induct)
  case init
  then show ?case by (simp add: executor_init_def)
next
  case (step s s')
  from step.hyps(2) show ?case
  proof cases
    case (send_push t')
    then show ?thesis using step.IH[of w t] step.prems by simp
  next
    case (send_return t')
    then show ?thesis using step.IH[of w t] step.prems by simp
  next
    case (join_post t')
    then show ?thesis using step.IH[of w t] step.prems by simp
  next
    case (worker_enter w')
    then show ?thesis using step.IH[of w t] step.prems by (simp split: if_splits)
  next
    case (worker_exit w')
    then show ?thesis using step.IH[of w t] step.prems by (simp split: if_splits)
  next
    case (worker_pop w' t' rest)
    then show ?thesis using step.IH[of w t] step.prems by (simp split: if_splits)
  next
    case (worker_signal w' t')
    then show ?thesis using step.IH[of w t] step.prems
      by (simp add: latch_signal_def split: if_splits)
  next
    case (worker_run w' t')
    then show ?thesis using step.IH[of w t] step.prems by (simp split: if_splits)
  qed
qed

lemma started_was_signalled:
  assumes "reachable body n s"
  shows "started s t \<Longrightarrow> \<exists>w. popped_then_signalled (history s) w t"
  using assms
proof (induction arbitrary: t rule: reachable.induct)
  case init
  then show ?case by (simp add: executor_init_def)
next
  case (step s s')
  from step.hyps(2) show ?case
  proof cases
    case (send_push t')
    then show ?thesis using step.IH[of t] step.prems
      by (auto intro: popped_then_signalled_append)
  next
    case (send_return t')
    then show ?thesis using step.IH[of t] step.prems
      by (auto intro: popped_then_signalled_append)
  next
    case (join_post t')
    then show ?thesis using step.IH[of t] step.prems
      by (auto intro: popped_then_signalled_append)
  next
    case (worker_enter w')
    then show ?thesis using step.IH[of t] step.prems by auto
  next
    case (worker_exit w')
    then show ?thesis using step.IH[of t] step.prems by auto
  next
    case (worker_pop w' t' rest)
    then show ?thesis using step.IH[of t] step.prems
      by (auto intro: popped_then_signalled_append)
  next
    case (worker_signal w' t')
    show ?thesis
    proof (cases "t = t'")
      case True
      have "WorkerPop w' t' \<in> set (history s)"
        using holding_was_popped[OF step.hyps(1)] worker_signal by simp
      then obtain h1 h2 where "history s = h1 @ WorkerPop w' t' # h2"
        by (meson split_list)
      then have "history s' = h1 @ [WorkerPop w' t'] @ h2 @ [StartedSignal w' t'] @ []"
        using worker_signal by (simp add: latch_signal_def)
      then have "popped_then_signalled (history s') w' t'"
        unfolding popped_then_signalled_def by blast
      then show ?thesis using True by blast
    next
      case False
      then have "started s t"
        using step.prems worker_signal by (simp add: latch_signal_def)
      then obtain w where "popped_then_signalled (history s) w t"
        using step.IH by blast
      then have "popped_then_signalled (history s @ [StartedSignal w' t']) w t"
        by (rule popped_then_signalled_append)
      then show ?thesis using worker_signal by (auto simp: latch_signal_def)
    qed
  next
    case (worker_run w' t')
    then show ?thesis using step.IH[of t] step.prems
      by (auto intro: popped_then_signalled_append)
  qed
qed

lemma returned_after_signal:
  assumes "reachable body n s"
  shows "SendReturn t \<in> set (history s) \<Longrightarrow> \<exists>w. popped_signalled_returned (history s) w t"
  using assms
proof (induction arbitrary: t rule: reachable.induct)
  case init
  then show ?case by (simp add: executor_init_def)
next
  case (step s s')
  from step.hyps(2) show ?case
  proof cases
    case (send_push t')
    then show ?thesis using step.IH[of t] step.prems
      by (auto intro: popped_signalled_returned_append)
  next
    case (send_return t')
    show ?thesis
    proof (cases "SendReturn t \<in> set (history s)")
      case True
      then obtain w where "popped_signalled_returned (history s) w t"
        using step.IH by blast
      then have "popped_signalled_returned (history s @ [SendReturn t']) w t"
        by (rule popped_signalled_returned_append)
      then show ?thesis using send_return by auto
    next
      case False
      then have tt: "t = t'" using step.prems send_return by simp
      have "started s t'"
        using send_return by (simp add: latch_wait_may_return_def)
      then obtain w where "popped_then_signalled (history s) w t'"
        using started_was_signalled[OF step.hyps(1)] by blast
      then obtain h1 h2 h3 where
        "history s = h1 @ [WorkerPop w t'] @ h2 @ [StartedSignal w t'] @ h3"
        unfolding popped_then_signalled_def by blast
      then have "history s' =
          h1 @ [WorkerPop w t'] @ h2 @ [StartedSignal w t'] @ h3 @ [SendReturn t'] @ []"
        using send_return by simp
      then have "popped_signalled_returned (history s') w t'"
        unfolding popped_signalled_returned_def by blast
      then show ?thesis using tt by blast
    qed
  next
    case (join_post t')
    then show ?thesis using step.IH[of t] step.prems
      by (auto intro: popped_signalled_returned_append)
  next
    case (worker_enter w')
    then show ?thesis using step.IH[of t] step.prems by auto
  next
    case (worker_exit w')
    then show ?thesis using step.IH[of t] step.prems by auto
  next
    case (worker_pop w' t' rest)
    then show ?thesis using step.IH[of t] step.prems
      by (auto intro: popped_signalled_returned_append)
  next
    case (worker_signal w' t')
    then show ?thesis using step.IH[of t] step.prems
      by (auto simp: latch_signal_def intro: popped_signalled_returned_append)
  next
    case (worker_run w' t')
    then show ?thesis using step.IH[of t] step.prems
      by (auto intro: popped_signalled_returned_append)
  qed
qed


lemma returned_is_in_history:
  assumes "reachable body n s"
  shows "sender s t = Returned \<Longrightarrow> SendReturn t \<in> set (history s)"
  using assms
proof (induction arbitrary: t rule: reachable.induct)
  case init
  then show ?case by (simp add: executor_init_def)
next
  case (step s s')
  from step.hyps(2) show ?case
    using step.IH[of t] step.prems
    by cases (auto simp: latch_signal_def split: if_splits)
qed

text \<open>
  C3: in every execution, when \<open>send_impl\<close> has returned for a task \<open>t\<close>, some worker
  has popped \<open>t\<close> from the queue and then signalled the latch of \<open>t\<close>, and both happened
  before the return.
\<close>

theorem send_returns_after_started_signal:
  assumes "reachable body m_num_threads s"
    and "sender s t = Returned \<or> SendReturn t \<in> set (history s)"
  shows "\<exists>w. popped_signalled_returned (history s) w t"
proof -
  have "SendReturn t \<in> set (history s)"
    using assms returned_is_in_history by blast
  then show ?thesis
    using returned_after_signal[OF assms(1)] by blast
qed

definition demo_body :: "nat \<Rightarrow> task_body" where
  "demo_body t = ClientTask"

definition demo_exec_1 :: executor where
  "demo_exec_1 = executor_init\<lparr>m_task_queue := [0],
     sender := (\<lambda>t. NotStarted)(0 := WaitingForStarted), history := [SendPush 0]\<rparr>"

definition demo_exec_2 :: executor where
  "demo_exec_2 = demo_exec_1\<lparr>worker := (\<lambda>w. LoopHead)(0 := WaitOnNextTask)\<rparr>"

definition demo_exec_3 :: executor where
  "demo_exec_3 = demo_exec_2\<lparr>m_task_queue := [],
     worker := (\<lambda>w. LoopHead)(0 := HoldingTask 0), history := [SendPush 0, WorkerPop 0 0]\<rparr>"

definition demo_exec_4 :: executor where
  "demo_exec_4 = demo_exec_3\<lparr>started := (\<lambda>t. False)(0 := True),
     worker := (\<lambda>w. LoopHead)(0 := RunningTask 0),
     history := [SendPush 0, WorkerPop 0 0, StartedSignal 0 0]\<rparr>"

definition demo_exec_5 :: executor where
  "demo_exec_5 = demo_exec_4\<lparr>sender := (\<lambda>t. NotStarted)(0 := Returned),
     history := [SendPush 0, WorkerPop 0 0, StartedSignal 0 0, SendReturn 0]\<rparr>"

lemma demo_exec_reachable: "reachable demo_body 1 demo_exec_5"
proof -
  have s1: "exec_step demo_body 1 executor_init demo_exec_1"
    using send_push[of executor_init 0 demo_body 1]
    by (simp add: executor_init_def demo_exec_1_def demo_body_def)
  have s2: "exec_step demo_body 1 demo_exec_1 demo_exec_2"
    using worker_enter[of 0 1 demo_exec_1 demo_body]
    by (simp add: executor_init_def demo_exec_1_def demo_exec_2_def)
  have s3: "exec_step demo_body 1 demo_exec_2 demo_exec_3"
    using worker_pop[of 0 1 demo_exec_2 0 "[]" demo_body]
    by (simp add: executor_init_def demo_exec_1_def demo_exec_2_def demo_exec_3_def)
  have s4: "exec_step demo_body 1 demo_exec_3 demo_exec_4"
    using worker_signal[of 0 1 demo_exec_3 0 demo_body]
    by (simp add: executor_init_def demo_exec_1_def demo_exec_2_def demo_exec_3_def
        demo_exec_4_def latch_signal_def)
  have s5: "exec_step demo_body 1 demo_exec_4 demo_exec_5"
    using send_return[of demo_exec_4 0 demo_body 1]
    by (simp add: executor_init_def demo_exec_1_def demo_exec_2_def demo_exec_3_def
        demo_exec_4_def demo_exec_5_def latch_wait_may_return_def)
  show ?thesis
    using reachable.init[of demo_body 1] s1 s2 s3 s4 s5 by (metis reachable.step)
qed

theorem send_returns_after_started_signal_witness:
  "reachable demo_body 1 demo_exec_5 \<and> sender demo_exec_5 0 = Returned \<and>
   history demo_exec_5 = [SendPush 0, WorkerPop 0 0, StartedSignal 0 0, SendReturn 0] \<and>
   (\<exists>w. popped_signalled_returned (history demo_exec_5) w 0)"
proof -
  have r: "sender demo_exec_5 0 = Returned \<or> SendReturn 0 \<in> set (history demo_exec_5)"
    by (simp add: demo_exec_5_def)
  show ?thesis
    using send_returns_after_started_signal[OF demo_exec_reachable r] demo_exec_reachable
    by (simp add: demo_exec_5_def)
qed

end
